theory Spec2Isabelle
  imports Main
begin

section \<open>Strings and the limit table\<close>

text \<open>
  A JavaScript string is a sequence of UTF-16 code units; \<open>length\<close> counts them and
  \<open>slice\<close> cuts between them. The model uses \<open>string\<close> (a list of characters), one
  list element for one code unit: the packing code looks only at the number and the order
  of the units, and \<open>parseInt\<close> only at units of the ASCII range.
\<close>

text \<open>
  \<open>String.prototype.slice(start, end)\<close>: a negative index counts from the end of the
  string, every index is clamped to \<open>[0, length]\<close>, and an empty range gives the empty
  string.
\<close>

definition slice :: "string \<Rightarrow> int \<Rightarrow> int \<Rightarrow> string" where
  "slice s start fin =
     (let len = int (length s);
          k_from = (if start < 0 then max (len + start) 0 else min start len);
          k_to = (if fin < 0 then max (len + fin) 0 else min fin len)
      in if k_to \<le> k_from then [] else take (nat (k_to - k_from)) (drop (nat k_from) s))"

text \<open>\<open>DISCORD_LIMITS\<close> of \<open>utils/size-adjusting.ts\<close>.\<close>

definition EMBED_TOTAL_CHARS :: nat where "EMBED_TOTAL_CHARS = 6000 - 100"
definition EMBED_MAX_FIELDS :: nat where "EMBED_MAX_FIELDS = 25"
definition TITLE :: nat where "TITLE = 256 - 56"
definition DESCRIPTION :: nat where "DESCRIPTION = 4096 - 96"
definition FOOTER :: nat where "FOOTER = 2048 - 48"
definition FIELD_NAME :: nat where "FIELD_NAME = 256 - 16"
definition FIELD_VALUE :: nat where "FIELD_VALUE = 1024 - 24"
definition MAX_EMBEDS_PER_PAYLOAD :: nat where "MAX_EMBEDS_PER_PAYLOAD = 10"

section \<open>Alerts, embeds and segments\<close>

text \<open>
  A value of the context object. \<open>stringify\<close> looks at three cases only: a string, an
  \<open>Error\<close> (with its optional \<open>stack\<close> and the text of \<open>toString()\<close>), and anything
  else, which goes to the built-in \<open>JSON.stringify(input, replacer)\<close>. The built-in is not
  part of the repository: a value of the third kind carries what the built-in gives for
  it, a text, \<open>undefined\<close> (for \<open>undefined\<close>, a function or a symbol) or an exception
  (a circular structure).
\<close>

datatype js_error = TypeError | FetchFailed

datatype json_result = JsonText string | JsonUndefined | JsonThrows

datatype js_value =
    JString string
  | JError "string option" string
  | JOther json_result

text \<open>\<open>stringify\<close> of \<open>utils/stringify.ts\<close>; \<open>Inr None\<close> is the result \<open>undefined\<close>.\<close>

fun stringify :: "js_value \<Rightarrow> js_error + string option" where
  "stringify (JString s) = Inr (Some s)"
| "stringify (JError stack msg) = Inr (Some (case stack of Some st \<Rightarrow> st | None \<Rightarrow> msg))"
| "stringify (JOther (JsonText t)) = Inr (Some t)"
| "stringify (JOther JsonUndefined) = Inr None"
| "stringify (JOther JsonThrows) = Inl TypeError"

datatype Level = Info | Error | Warn | Fatal

text \<open>
  \<open>AlertInput\<close> of \<open>types.ts\<close>. The context is given by its \<open>Object.entries\<close>: the
  key/value pairs in the order in which JavaScript enumerates them.
\<close>

record AlertInput =
  title :: "string option"
  description :: "string option"
  footer :: "string option"
  context' :: "(string \<times> js_value) list option"
  level :: "Level option"

record Field =
  name :: string
  val :: string

record Footer =
  footer_text :: string

record Embed =
  color :: "nat option"
  title :: "string option"
  description :: "string option"
  footer :: "Footer option"
  timestamp :: string
  fields' :: "Field list"

record EmbedWithCharCount = Embed +
  charsCount :: nat

datatype Segment =
    TitleSeg string
  | DescriptionSeg string
  | FooterSeg string
  | FieldSeg Field

subsection \<open>The packing loop, the client and the wrapper\<close>

text \<open>
  The variables of the packing loop. \<open>randomUUID()\<close> and \<open>new Date().toISOString()\<close> are
  inputs of the model: \<open>alertId\<close> is the identifier drawn for the alert, and \<open>clock k\<close>
  is the time read when the embed number \<open>k\<close> of the alert is started.
\<close>

record pack_state =
  embeds :: "EmbedWithCharCount list"
  current :: "Embed option"
  charCount :: nat
  fieldCount :: nat

text \<open>
  The numbers that reach \<open>setTimeout\<close>: an integer or \<open>NaN\<close>. A JavaScript number is a
  double, which holds every integer below \<open>2^53\<close> exactly; beyond that \<open>parseInt\<close> rounds
  and the model does not.
\<close>

datatype js_num = NaN | Num int

text \<open>
  A timer made by \<open>setTimeout\<close>: its delay, and whether \<open>clearTimeout\<close> was called on it.
  The handle stays in \<open>timeoutId\<close> after the timer was cleared or has fired: the code
  never resets the field.
\<close>

record Timeout =
  delay :: js_num
  cleared :: bool

text \<open>
  What \<open>await fetch(...)\<close> gives: a rejection, or a response with its status and its
  \<open>Retry-After\<close> header (\<open>None\<close> when \<open>headers.get\<close> returns \<open>null\<close>). \<open>res.ok\<close> is the
  Fetch standard's: the status is in the range 200 to 299.
\<close>

record Response =
  status :: nat
  retry_after :: "string option"

datatype fetch_result = Rejected | Resolved Response

text \<open>
  The fields of \<open>AlertsClient\<close> that the queue and the timers depend on. The webhook URL,
  the label, the environment and the logger only build the request and the log lines;
  the model takes the answer of \<open>fetch\<close> as an input instead and writes no log.
\<close>

record AlertsClient =
  TRUNCATED_SUFFIX :: string
  BATCH_SIZE :: nat
  DEFAULT_TIMEOUT_MS :: int
  embeds :: "EmbedWithCharCount list"
  timeoutId :: "Timeout option"
  disabled :: bool
  isSending :: bool
  isFlushing :: bool

record AlertsClientOptions =
  opt_disabled :: "bool option"
  opt_TRUNCATED_SUFFIX :: "string option"
  opt_DEFAULT_TIMEOUT_MS :: "int option"

text \<open>
  The wrapper forwards to the core client. Within the wrapper the core client is
  represented by the suffix it was constructed with and by the calls it has received, in
  order; \<open>client\<close> is \<open>None\<close> before \<open>init\<close>.
\<close>

datatype core_call = AddAlert AlertInput | Flush | Stop

record CoreClient =
  core_suffix :: string
  received :: "core_call list"

record LazyLoadingAlertsClient =
  client :: "CoreClient option"
  queuedAlerts :: "AlertInput list"
  flushRequested :: bool

section \<open>Truncating and chunking\<close>

text \<open>
  \<open>truncate\<close>: the bound is a JavaScript number; every caller passes an integer, so it
  is an \<open>int\<close> here (it may be smaller than the suffix's length, or negative). The
  parameter \<open>TRUNCATED_SUFFIX\<close> is written \<open>suffix\<close> throughout.
\<close>

definition truncate :: "string \<Rightarrow> int \<Rightarrow> string \<Rightarrow> string" where
  "truncate txt mx suffix =
     (if int (length txt) > mx
      then slice txt 0 (mx - int (length suffix)) @ suffix
      else txt)"

text \<open>
  \<open>chunk\<close>: the loop \<open>for (let i = 0; i < txt.length; i += size)\<close> never ends when
  \<open>size\<close> is 0 and the text is not empty, so the loop is a partial function and
  \<open>None\<close> stands for a call that does not return.
\<close>

partial_function (option) chunk_loop :: "string \<Rightarrow> nat \<Rightarrow> nat \<Rightarrow> string list \<Rightarrow> string list option"
where
  "chunk_loop txt sz i chunks =
     (if i < length txt
      then chunk_loop txt sz (i + sz) (chunks @ [slice txt (int i) (int (i + sz))])
      else Some chunks)"

declare chunk_loop.simps [code]

definition chunk :: "string \<Rightarrow> nat \<Rightarrow> string list option" where
  "chunk txt sz = (if txt = [] then Some [] else chunk_loop txt sz 0 [])"

section \<open>From an alert to embeds\<close>

text \<open>The colours are \<open>0xff0000\<close>, \<open>0xff6666\<close>, \<open>0xffff00\<close> and \<open>0x0000ff\<close>.\<close>

fun getColorForLevel :: "Level option \<Rightarrow> nat option" where
  "getColorForLevel None = None"
| "getColorForLevel (Some Fatal) = Some 16711680"
| "getColorForLevel (Some Error) = Some 16737894"
| "getColorForLevel (Some Warn) = Some 16776960"
| "getColorForLevel (Some Info) = Some 255"

text \<open>JavaScript truthiness of an optional string: present and not empty.\<close>

definition truthy :: "string option \<Rightarrow> bool" where
  "truthy s = (case s of None \<Rightarrow> False | Some t \<Rightarrow> t \<noteq> [])"

subsection \<open>Step 0 and 1 of alertToEmbeds: the prepared parts and the segments\<close>

definition prepared_title :: "AlertInput \<Rightarrow> string \<Rightarrow> string option" where
  "prepared_title alert suffix =
     (case AlertInput.title alert of
        None \<Rightarrow> None
      | Some t \<Rightarrow> if t \<noteq> [] then Some (truncate t (int TITLE) suffix) else None)"

definition prepared_footer :: "AlertInput \<Rightarrow> string \<Rightarrow> string option" where
  "prepared_footer alert suffix =
     (case AlertInput.footer alert of
        None \<Rightarrow> None
      | Some t \<Rightarrow> if t \<noteq> [] then Some (truncate t (int FOOTER) suffix) else None)"

definition prepared_descriptionChunks :: "AlertInput \<Rightarrow> string list option" where
  "prepared_descriptionChunks alert =
     chunk (case AlertInput.description alert of None \<Rightarrow> [] | Some d \<Rightarrow> d) DESCRIPTION"

text \<open>
  One entry of the context: the key is truncated, then the value is stringified and
  truncated. When \<open>stringify\<close> gives \<open>undefined\<close>, \<open>truncate\<close> reads \<open>txt.length\<close> of
  \<open>undefined\<close> and throws a \<open>TypeError\<close>.
\<close>

definition prepared_field :: "string \<Rightarrow> string \<times> js_value \<Rightarrow> js_error + Field" where
  "prepared_field suffix kv =
     (case stringify (snd kv) of
        Inl e \<Rightarrow> Inl e
      | Inr None \<Rightarrow> Inl TypeError
      | Inr (Some s) \<Rightarrow>
          Inr \<lparr>name = truncate (fst kv) (int FIELD_NAME) suffix,
               val = truncate s (int FIELD_VALUE) suffix\<rparr>)"

fun map_entries :: "string \<Rightarrow> (string \<times> js_value) list \<Rightarrow> js_error + Field list" where
  "map_entries suffix [] = Inr []"
| "map_entries suffix (kv # kvs) =
     (case prepared_field suffix kv of
        Inl e \<Rightarrow> Inl e
      | Inr f \<Rightarrow>
          (case map_entries suffix kvs of
             Inl e \<Rightarrow> Inl e
           | Inr fs \<Rightarrow> Inr (f # fs)))"

definition prepared_fields :: "AlertInput \<Rightarrow> string \<Rightarrow> js_error + Field list" where
  "prepared_fields alert suffix =
     (case context' alert of
        None \<Rightarrow> Inr []
      | Some entries \<Rightarrow> map_entries suffix entries)"

text \<open>
  The list \<open>segments\<close>: title, description chunks, fields, footer. The title and the footer
  are pushed only when the prepared text is truthy. The outer \<open>option\<close> is \<open>None\<close> when
  \<open>chunk\<close> does not return, the sum is \<open>Inl\<close> when a field throws.
\<close>

definition title_segments :: "AlertInput \<Rightarrow> string \<Rightarrow> Segment list" where
  "title_segments alert suffix =
     (case prepared_title alert suffix of
        None \<Rightarrow> []
      | Some t \<Rightarrow> if t \<noteq> [] then [TitleSeg t] else [])"

definition footer_segments :: "AlertInput \<Rightarrow> string \<Rightarrow> Segment list" where
  "footer_segments alert suffix =
     (case prepared_footer alert suffix of
        None \<Rightarrow> []
      | Some t \<Rightarrow> if t \<noteq> [] then [FooterSeg t] else [])"

definition segments :: "AlertInput \<Rightarrow> string \<Rightarrow> (js_error + Segment list) option" where
  "segments alert suffix =
     (case prepared_descriptionChunks alert of
        None \<Rightarrow> None
      | Some chunks \<Rightarrow>
          Some (case prepared_fields alert suffix of
                  Inl e \<Rightarrow> Inl e
                | Inr fs \<Rightarrow>
                    Inr (title_segments alert suffix
                         @ map DescriptionSeg chunks
                         @ map FieldSeg fs
                         @ footer_segments alert suffix)))"

subsection \<open>Step 2 of alertToEmbeds: greedy packing\<close>

definition startNewEmbed :: "Level option \<Rightarrow> string \<Rightarrow> (nat \<Rightarrow> string) \<Rightarrow> pack_state \<Rightarrow> pack_state" where
  "startNewEmbed lvl alertId clock st =
     st\<lparr>current :=
          Some \<lparr>color = getColorForLevel lvl, title = None, description = None, footer = None,
                timestamp = clock (length (pack_state.embeds st)),
                fields' = [\<lparr>name = ''alertId'', val = alertId\<rparr>]\<rparr>,
        charCount := length ''alertId'' + length alertId,
        fieldCount := 1\<rparr>"

definition commitEmbed :: "pack_state \<Rightarrow> pack_state" where
  "commitEmbed st =
     (case current st of
        Some c \<Rightarrow> st\<lparr>pack_state.embeds := pack_state.embeds st @ [Embed.extend c (EmbedWithCharCount.fields (charCount st))]\<rparr>
      | None \<Rightarrow> st)
     \<lparr>current := None, charCount := 0, fieldCount := 0\<rparr>"

definition ensure :: "Level option \<Rightarrow> string \<Rightarrow> (nat \<Rightarrow> string) \<Rightarrow> pack_state \<Rightarrow> pack_state" where
  "ensure lvl alertId clock st =
     (if current st = None then startNewEmbed lvl alertId clock st else st)"

text \<open>
  One turn of the loop \<open>for (const seg of segments)\<close>. \<open>current!\<close> is read after
  \<open>ensure()\<close> or \<open>startNewEmbed()\<close>; were it \<open>null\<close>, the property access would throw.
\<close>

fun place :: "Level option \<Rightarrow> string \<Rightarrow> (nat \<Rightarrow> string) \<Rightarrow> pack_state \<Rightarrow> Segment \<Rightarrow> js_error + pack_state" where
  "place lvl alertId clock st (TitleSeg content) =
     (let st1 = ensure lvl alertId clock st; len = length content in
      case current st1 of
        None \<Rightarrow> Inl TypeError
      | Some c \<Rightarrow>
          let st2 = (if truthy (title c) \<or> charCount st1 + len > EMBED_TOTAL_CHARS
                     then startNewEmbed lvl alertId clock (commitEmbed st1) else st1) in
          (case current st2 of
             None \<Rightarrow> Inl TypeError
           | Some c2 \<Rightarrow>
               Inr (st2\<lparr>current := Some (c2\<lparr>title := Some content\<rparr>),
                        charCount := charCount st2 + len\<rparr>)))"
| "place lvl alertId clock st (DescriptionSeg content) =
     (let st1 = ensure lvl alertId clock st; len = length content in
      case current st1 of
        None \<Rightarrow> Inl TypeError
      | Some c \<Rightarrow>
          let st2 = (if truthy (description c) \<or> charCount st1 + len > EMBED_TOTAL_CHARS
                     then startNewEmbed lvl alertId clock (commitEmbed st1) else st1) in
          (case current st2 of
             None \<Rightarrow> Inl TypeError
           | Some c2 \<Rightarrow>
               Inr (st2\<lparr>current := Some (c2\<lparr>description := Some content\<rparr>),
                        charCount := charCount st2 + len\<rparr>)))"
| "place lvl alertId clock st (FooterSeg content) =
     (let st1 = ensure lvl alertId clock st; len = length content in
      case current st1 of
        None \<Rightarrow> Inl TypeError
      | Some c \<Rightarrow>
          let st2 = (if footer c \<noteq> None \<or> charCount st1 + len > EMBED_TOTAL_CHARS
                     then startNewEmbed lvl alertId clock (commitEmbed st1) else st1) in
          (case current st2 of
             None \<Rightarrow> Inl TypeError
           | Some c2 \<Rightarrow>
               Inr (st2\<lparr>current := Some (c2\<lparr>footer := Some \<lparr>footer_text = content\<rparr>\<rparr>),
                        charCount := charCount st2 + len\<rparr>)))"
| "place lvl alertId clock st (FieldSeg f) =
     (let extraChars = length (name f) + length (val f);
          st2 = (if current st = None \<or> fieldCount st \<ge> EMBED_MAX_FIELDS
                      \<or> charCount st + extraChars > EMBED_TOTAL_CHARS
                 then startNewEmbed lvl alertId clock (commitEmbed st) else st) in
      case current st2 of
        None \<Rightarrow> Inl TypeError
      | Some c \<Rightarrow>
          Inr (st2\<lparr>current := Some (c\<lparr>fields' := fields' c @ [f]\<rparr>),
                   fieldCount := fieldCount st2 + 1,
                   charCount := charCount st2 + extraChars\<rparr>))"

fun pack_loop :: "Level option \<Rightarrow> string \<Rightarrow> (nat \<Rightarrow> string) \<Rightarrow> pack_state \<Rightarrow> Segment list \<Rightarrow> js_error + pack_state" where
  "pack_loop lvl alertId clock st [] = Inr st"
| "pack_loop lvl alertId clock st (seg # segs) =
     (case place lvl alertId clock st seg of
        Inl e \<Rightarrow> Inl e
      | Inr st' \<Rightarrow> pack_loop lvl alertId clock st' segs)"

definition pack_init :: pack_state where
  "pack_init = \<lparr>pack_state.embeds = [], current = None, charCount = 0, fieldCount = 0\<rparr>"

definition alertToEmbeds ::
  "AlertInput \<Rightarrow> string \<Rightarrow> string \<Rightarrow> (nat \<Rightarrow> string) \<Rightarrow> (js_error + EmbedWithCharCount list) option" where
  "alertToEmbeds alert suffix alertId clock =
     (case segments alert suffix of
        None \<Rightarrow> None
      | Some (Inl e) \<Rightarrow> Some (Inl e)
      | Some (Inr segs) \<Rightarrow>
          Some (case pack_loop (level alert) alertId clock pack_init segs of
                  Inl e \<Rightarrow> Inl e
                | Inr st \<Rightarrow> Inr (pack_state.embeds (commitEmbed st))))"

subsection \<open>fillBatch\<close>

text \<open>
  The loop of \<open>fillBatch\<close> with its two variables \<open>batch\<close> and \<open>accumulatedChars\<close>; each
  \<open>break\<close> returns the batch built so far. \<open>Embed.truncate\<close> drops \<open>charsCount\<close>, as the
  destructuring \<open>{ charsCount, ...embed }\<close> does. \<open>batchSize\<close> is a count of embeds (its
  default is \<open>MAX_EMBEDS_PER_PAYLOAD\<close>; the client passes its \<open>BATCH_SIZE\<close>).
\<close>

fun fillBatch_loop :: "nat \<Rightarrow> Embed list \<Rightarrow> nat \<Rightarrow> EmbedWithCharCount list \<Rightarrow> Embed list" where
  "fillBatch_loop batchSize batch accumulatedChars [] = batch"
| "fillBatch_loop batchSize batch accumulatedChars (e # es) =
     (if length batch \<ge> batchSize then batch
      else let accumulatedChars' = accumulatedChars + charsCount e in
           if accumulatedChars' > EMBED_TOTAL_CHARS then batch
           else fillBatch_loop batchSize (batch @ [Embed.truncate e]) accumulatedChars' es)"

definition fillBatch :: "EmbedWithCharCount list \<Rightarrow> nat \<Rightarrow> Embed list" where
  "fillBatch source batchSize =
     (if length source = 0 then [] else fillBatch_loop batchSize [] 0 source)"

section \<open>The client\<close>

fun js_times :: "js_num \<Rightarrow> int \<Rightarrow> js_num" where
  "js_times NaN k = NaN"
| "js_times (Num n) k = Num (n * k)"

text \<open>
  The built-in \<open>parseInt(string)\<close> without a radix, after ECMAScript: leading white space
  is skipped, then an optional sign, then an optional \<open>0x\<close> or \<open>0X\<close> that selects radix 16;
  the result is the value of the longest run of digits of the radix, and \<open>NaN\<close> when there
  is no digit.
\<close>

definition js_whitespace :: "char \<Rightarrow> bool" where
  "js_whitespace c = (of_char c \<in> set [9, 10, 11, 12, 13, 32, 160 :: nat])"

definition digit_of :: "nat \<Rightarrow> char \<Rightarrow> nat option" where
  "digit_of radix c =
     (let k = (of_char c :: nat);
          d = (if 48 \<le> k \<and> k \<le> 57 then Some (k - 48)
               else if 97 \<le> k \<and> k \<le> 122 then Some (k - 87)
               else if 65 \<le> k \<and> k \<le> 90 then Some (k - 55)
               else None)
      in case d of None \<Rightarrow> None | Some v \<Rightarrow> if v < radix then Some v else None)"

fun parse_digits :: "nat \<Rightarrow> int option \<Rightarrow> string \<Rightarrow> int option" where
  "parse_digits radix acc [] = acc"
| "parse_digits radix acc (c # cs) =
     (case digit_of radix c of
        None \<Rightarrow> acc
      | Some d \<Rightarrow>
          parse_digits radix
            (Some (int radix * (case acc of None \<Rightarrow> 0 | Some a \<Rightarrow> a) + int d)) cs)"

definition parseInt :: "string \<Rightarrow> js_num" where
  "parseInt str =
     (let s = dropWhile js_whitespace str;
          sgn = (case s of c # rest \<Rightarrow> if c = CHR ''-'' then - 1 else 1 | [] \<Rightarrow> (1::int));
          s1 = (case s of c # rest \<Rightarrow> if c = CHR ''-'' \<or> c = CHR ''+'' then rest else s | [] \<Rightarrow> []);
          hex = (case s1 of c1 # c2 # rest \<Rightarrow> c1 = CHR ''0'' \<and> (c2 = CHR ''x'' \<or> c2 = CHR ''X'')
                 | _ \<Rightarrow> False);
          radix = (if hex then 16 else 10);
          s2 = (if hex then drop 2 s1 else s1)
      in case parse_digits radix None s2 of None \<Rightarrow> NaN | Some n \<Rightarrow> Num (sgn * n))"

definition setTimeout :: "js_num \<Rightarrow> Timeout" where
  "setTimeout ms = \<lparr>delay = ms, cleared = False\<rparr>"

definition clearTimeout :: "Timeout \<Rightarrow> Timeout" where
  "clearTimeout t = t\<lparr>cleared := True\<rparr>"

definition new_AlertsClient :: "AlertsClientOptions \<Rightarrow> AlertsClient" where
  "new_AlertsClient options =
     \<lparr>TRUNCATED_SUFFIX =
        (case opt_TRUNCATED_SUFFIX options of
           Some sfx \<Rightarrow> if sfx \<noteq> [] then sfx else ''...''
         | None \<Rightarrow> ''...''),
      BATCH_SIZE = 10,
      DEFAULT_TIMEOUT_MS =
        (case opt_DEFAULT_TIMEOUT_MS options of
           Some ms \<Rightarrow> if ms \<noteq> 0 then ms else 1000 * 10
         | None \<Rightarrow> 1000 * 10),
      embeds = [],
      timeoutId = None,
      disabled = (opt_disabled options = Some True),
      isSending = False,
      isFlushing = False\<rparr>"

text \<open>
  Two log lines are built with \<open>stringify(alert)\<close>, which hands the alert object to the
  built-in \<open>JSON.stringify(input, replacer)\<close>. The text goes to the logger only; what
  matters to the caller is whether the built-in throws. It throws on the alert when it
  throws on a value inside it, and the values on which the model lets the built-in
  throw are the context values \<open>JOther JsonThrows\<close> (a string is copied, an \<open>Error\<close> is
  replaced by the replacer, a value without a text is left out).
\<close>

definition stringify_alert_throws :: "AlertInput \<Rightarrow> bool" where
  "stringify_alert_throws alert =
     (case context' alert of
        None \<Rightarrow> False
      | Some entries \<Rightarrow> list_ex (\<lambda>kv. snd kv = JOther JsonThrows) entries)"

text \<open>
  \<open>addAlert\<close>. While flushing, the alert is only logged, and the log line may throw.
  Otherwise \<open>None\<close> and \<open>Inl\<close> are those of \<open>alertToEmbeds\<close>. An exception leaves the
  client as it was.
\<close>

definition addAlert ::
  "AlertsClient \<Rightarrow> AlertInput \<Rightarrow> string \<Rightarrow> (nat \<Rightarrow> string) \<Rightarrow> (js_error + AlertsClient) option" where
  "addAlert c alert alertId clock =
     (if isFlushing c
      then (if stringify_alert_throws alert then Some (Inl TypeError) else Some (Inr c))
      else case alertToEmbeds alert (TRUNCATED_SUFFIX c) alertId clock of
             None \<Rightarrow> None
           | Some (Inl e) \<Rightarrow> Some (Inl e)
           | Some (Inr es) \<Rightarrow>
               Some (Inr (let c1 = c\<lparr>embeds := embeds c @ es\<rparr> in
                          if timeoutId c1 = None \<and> \<not> isSending c1
                          then c1\<lparr>timeoutId := Some (setTimeout (Num (DEFAULT_TIMEOUT_MS c1)))\<rparr>
                          else c1)))"

definition ok :: "Response \<Rightarrow> bool" where
  "ok res = (200 \<le> status res \<and> status res \<le> 299)"

text \<open>
  The end of \<open>sendAlertsBatch\<close>, from \<open>this.embeds = this.embeds.slice(this.BATCH_SIZE)\<close>
  on. \<open>Array.prototype.slice(n)\<close> with \<open>n \<ge> 0\<close> drops the first \<open>n\<close> elements.
\<close>

definition after_send :: "AlertsClient \<Rightarrow> int option \<Rightarrow> AlertsClient \<times> (js_error + js_num)" where
  "after_send c timeoutOverrideMs =
     (let c1 = c\<lparr>embeds := drop (BATCH_SIZE c) (embeds c)\<rparr> in
      if embeds c1 \<noteq> []
      then let timeoutMs = (case timeoutOverrideMs of
                              Some ms \<Rightarrow> if ms \<noteq> 0 then ms else DEFAULT_TIMEOUT_MS c1
                            | None \<Rightarrow> DEFAULT_TIMEOUT_MS c1)
           in (c1\<lparr>timeoutId := Some (setTimeout (Num timeoutMs))\<rparr>, Inr (Num timeoutMs))
      else (c1\<lparr>isSending := False\<rparr>, Inr (Num 0)))"

text \<open>
  \<open>sendAlertsBatch\<close>: the client after the call and what the call returns, the delay
  in milliseconds or the exception of a rejected \<open>fetch\<close>. The statement
  \<open>this.embeds.slice(0, batch.length)\<close> computes a copy that nobody reads and leaves the
  array as it is; it is the unused \<open>copied\<close> below.
\<close>

definition sendAlertsBatch ::
  "AlertsClient \<Rightarrow> int option \<Rightarrow> fetch_result \<Rightarrow> AlertsClient \<times> (js_error + js_num)" where
  "sendAlertsBatch c timeoutOverrideMs fetched =
     (if length (embeds c) = 0 then (c, Inr (Num 0))
      else
        let c1 = c\<lparr>isSending := True\<rparr>;
            c2 = c1\<lparr>timeoutId := map_option clearTimeout (timeoutId c1)\<rparr>;
            batch = fillBatch (embeds c2) (BATCH_SIZE c2);
            copied = take (length batch) (embeds c2)
        in if disabled c2 then after_send c2 timeoutOverrideMs
           else case fetched of
                  Rejected \<Rightarrow> (c2, Inl FetchFailed)
                | Resolved res \<Rightarrow>
                    if \<not> ok res then
                      if status res = 429 then
                        let retryAfterSeconds =
                              (case retry_after res of
                                 None \<Rightarrow> Num 30
                               | Some h \<Rightarrow> if h \<noteq> [] then parseInt h else Num 30);
                            timeoutMs = js_times retryAfterSeconds 1000
                        in (c2\<lparr>timeoutId := Some (setTimeout timeoutMs), isSending := False\<rparr>,
                            Inr timeoutMs)
                      else after_send c2 timeoutOverrideMs
                    else after_send c2 timeoutOverrideMs)"

text \<open>The embeds that a call of \<open>sendAlertsBatch\<close> puts into the request (or into the log line, when disabled).\<close>

definition sent_batch :: "AlertsClient \<Rightarrow> Embed list" where
  "sent_batch c = fillBatch (embeds c) (BATCH_SIZE c)"

definition stop :: "AlertsClient \<Rightarrow> AlertsClient" where
  "stop c = c\<lparr>timeoutId := map_option clearTimeout (timeoutId c)\<rparr>"

section \<open>The lazy-loading wrapper\<close>

definition new_LazyLoadingAlertsClient :: LazyLoadingAlertsClient where
  "new_LazyLoadingAlertsClient = \<lparr>client = None, queuedAlerts = [], flushRequested = False\<rparr>"

text \<open>
  The exception, if any, that \<open>addAlert\<close> of a core client that is not flushing throws
  for an alert: that of \<open>alertToEmbeds\<close>, which comes from the fields alone.
\<close>

definition addAlert_throws :: "string \<Rightarrow> AlertInput \<Rightarrow> js_error option" where
  "addAlert_throws suffix alert =
     (case prepared_fields alert suffix of Inl e \<Rightarrow> Some e | Inr fs \<Rightarrow> None)"

text \<open>
  The loop \<open>for (const alert of this.queuedAlerts) this.client.addAlert(alert)\<close>: the
  core client after it, and the exception that ended it early, if any.
\<close>

fun replay :: "CoreClient \<Rightarrow> AlertInput list \<Rightarrow> CoreClient \<times> js_error option" where
  "replay core [] = (core, None)"
| "replay core (alert # alerts) =
     (let core1 = core\<lparr>received := received core @ [AddAlert alert]\<rparr> in
      case addAlert_throws (core_suffix core) alert of
        Some e \<Rightarrow> (core1, Some e)
      | None \<Rightarrow> replay core1 alerts)"

text \<open>
  \<open>processQueue\<close>: the wrapper after it, and the exception that rejects its promise, if
  any. The state given after \<open>await this.client.flush()\<close> is the one reached when the
  flush has completed.
\<close>

definition processQueue :: "LazyLoadingAlertsClient \<Rightarrow> LazyLoadingAlertsClient \<times> js_error option" where
  "processQueue w =
     (case client w of
        None \<Rightarrow> (w, None)
      | Some core \<Rightarrow>
          if length (queuedAlerts w) = 0 then (w, None)
          else
            (case replay core (queuedAlerts w) of
               (core1, Some e) \<Rightarrow> (w\<lparr>client := Some core1\<rparr>, Some e)
             | (core1, None) \<Rightarrow>
                 let w1 = w\<lparr>client := Some core1, queuedAlerts := []\<rparr> in
                 if flushRequested w1
                 then (w1\<lparr>client := Some (core1\<lparr>received := received core1 @ [Flush]\<rparr>),
                          flushRequested := False\<rparr>, None)
                 else (w1, None)))"

text \<open>
  \<open>init\<close> calls \<open>void this.processQueue()\<close>: a rejection of that promise is not
  handed to the caller of \<open>init\<close>.
\<close>

definition init :: "LazyLoadingAlertsClient \<Rightarrow> AlertsClientOptions \<Rightarrow> LazyLoadingAlertsClient" where
  "init w config =
     (case client w of
        Some core \<Rightarrow> w
      | None \<Rightarrow>
          fst (processQueue
                 (w\<lparr>client := Some \<lparr>core_suffix = TRUNCATED_SUFFIX (new_AlertsClient config),
                                     received = []\<rparr>\<rparr>)))"

text \<open>
  \<open>addAlert\<close> of the wrapper: the wrapper after the call and the exception the call
  throws, if any. Once the core client exists the call is forwarded and its exception,
  \<open>forwarded\<close>, an input of the model, is handed on. Before that,
  \<open>logNotInitialized('addAlert', alert)\<close> builds its line with \<open>stringify(alert)\<close> first:
  when that throws, the alert is not queued.
\<close>

definition lazy_addAlert ::
  "LazyLoadingAlertsClient \<Rightarrow> AlertInput \<Rightarrow> js_error option \<Rightarrow>
   LazyLoadingAlertsClient \<times> js_error option" where
  "lazy_addAlert w alert forwarded =
     (case client w of
        Some core \<Rightarrow>
          (w\<lparr>client := Some (core\<lparr>received := received core @ [AddAlert alert]\<rparr>)\<rparr>, forwarded)
      | None \<Rightarrow>
          if stringify_alert_throws alert then (w, Some TypeError)
          else (w\<lparr>queuedAlerts := queuedAlerts w @ [alert]\<rparr>, None))"

text \<open>
  \<open>flush\<close> and \<open>stop\<close> of the wrapper build no text from an argument and throw nothing
  themselves: once the core client exists they make the call and do nothing else.
\<close>

definition lazy_flush :: "LazyLoadingAlertsClient \<Rightarrow> LazyLoadingAlertsClient" where
  "lazy_flush w =
     (case client w of
        Some core \<Rightarrow> w\<lparr>client := Some (core\<lparr>received := received core @ [Flush]\<rparr>)\<rparr>
      | None \<Rightarrow> w\<lparr>flushRequested := True\<rparr>)"

definition lazy_stop :: "LazyLoadingAlertsClient \<Rightarrow> LazyLoadingAlertsClient" where
  "lazy_stop w =
     (case client w of
        Some core \<Rightarrow> w\<lparr>client := Some (core\<lparr>received := received core @ [Stop]\<rparr>)\<rparr>
      | None \<Rightarrow> w)"

text \<open>
  A call made on the wrapper before \<open>init\<close>, and a sequence of such calls, made by a
  caller that goes on after an exception. No core client exists yet, so nothing is
  forwarded.
\<close>

datatype lazy_call = CallAddAlert AlertInput | CallFlush

fun lazy_apply :: "LazyLoadingAlertsClient \<Rightarrow> lazy_call \<Rightarrow> LazyLoadingAlertsClient" where
  "lazy_apply w (CallAddAlert alert) = fst (lazy_addAlert w alert None)"
| "lazy_apply w CallFlush = lazy_flush w"

definition lazy_run :: "lazy_call list \<Rightarrow> LazyLoadingAlertsClient" where
  "lazy_run calls = foldl lazy_apply new_LazyLoadingAlertsClient calls"

section \<open>Measures and invariants used in the statements\<close>

text \<open>
  The characters an embed holds: its title, description and footer text and the name
  and value of each field, the identifier field included.
\<close>

definition opt_len :: "string option \<Rightarrow> nat" where
  "opt_len s = (case s of None \<Rightarrow> 0 | Some t \<Rightarrow> length t)"

definition field_cost :: "Field \<Rightarrow> nat" where
  "field_cost f = length (name f) + length (val f)"

definition embed_cost :: "'a Embed_scheme \<Rightarrow> nat" where
  "embed_cost e =
     opt_len (title e) + opt_len (description e)
     + (case footer e of None \<Rightarrow> 0 | Some ft \<Rightarrow> length (footer_text ft))
     + sum_list (map field_cost (fields' e))"

fun seg_len :: "Segment \<Rightarrow> nat" where
  "seg_len (TitleSeg t) = length t"
| "seg_len (DescriptionSeg t) = length t"
| "seg_len (FooterSeg t) = length t"
| "seg_len (FieldSeg f) = field_cost f"

text \<open>
  The invariant of the packing loop for the budget: every committed embed, and the open
  one, stays within the two limits and starts with the identifier field, and the two
  counters of the loop agree with the open embed.
\<close>

definition alertId_field :: "string \<Rightarrow> Field" where
  "alertId_field alertId = \<lparr>name = ''alertId'', val = alertId\<rparr>"

definition embed_ok :: "string \<Rightarrow> 'a Embed_scheme \<Rightarrow> bool" where
  "embed_ok alertId e =
     (embed_cost e \<le> EMBED_TOTAL_CHARS \<and> length (fields' e) \<le> EMBED_MAX_FIELDS \<and>
      take 1 (fields' e) = [alertId_field alertId])"

definition pack_inv :: "string \<Rightarrow> pack_state \<Rightarrow> bool" where
  "pack_inv alertId st =
     (list_all (\<lambda>e. charsCount e = embed_cost e \<and> embed_ok alertId e) (pack_state.embeds st) \<and>
      (case current st of
         None \<Rightarrow> True
       | Some c \<Rightarrow> charCount st = embed_cost c \<and> fieldCount st = length (fields' c) \<and>
                  embed_ok alertId c))"

text \<open>
  The segments an embed holds, read back from its slots in the order in which an alert
  lists them (the first field is the identifier field, which is no segment). \<open>rank\<close> is
  the place of a kind of segment in that order, and \<open>seg_truthy\<close> says that a title or
  description segment is not empty, so that the slot it fills is seen as filled.
\<close>

definition embed_segments :: "'a Embed_scheme \<Rightarrow> Segment list" where
  "embed_segments e =
     (case title e of None \<Rightarrow> [] | Some t \<Rightarrow> [TitleSeg t])
     @ (case description e of None \<Rightarrow> [] | Some t \<Rightarrow> [DescriptionSeg t])
     @ map FieldSeg (drop 1 (fields' e))
     @ (case footer e of None \<Rightarrow> [] | Some ft \<Rightarrow> [FooterSeg (footer_text ft)])"

fun rank :: "Segment \<Rightarrow> nat" where
  "rank (TitleSeg t) = 0"
| "rank (DescriptionSeg t) = 1"
| "rank (FieldSeg f) = 2"
| "rank (FooterSeg t) = 3"

fun seg_truthy :: "Segment \<Rightarrow> bool" where
  "seg_truthy (TitleSeg t) = (t \<noteq> [])"
| "seg_truthy (DescriptionSeg t) = (t \<noteq> [])"
| "seg_truthy (FieldSeg f) = True"
| "seg_truthy (FooterSeg t) = True"

text \<open>
  The segments placed so far, in the committed embeds and in the open one, and the
  invariant of the packing loop for the slots of the open embed.
\<close>

definition open_segments :: "pack_state \<Rightarrow> Segment list" where
  "open_segments st = (case current st of None \<Rightarrow> [] | Some c \<Rightarrow> embed_segments c)"

definition placed_segments :: "pack_state \<Rightarrow> Segment list" where
  "placed_segments st = concat (map embed_segments (pack_state.embeds st)) @ open_segments st"

definition slots_inv :: "pack_state \<Rightarrow> bool" where
  "slots_inv st =
     (case current st of
        None \<Rightarrow> True
      | Some c \<Rightarrow> title c \<noteq> Some [] \<and> description c \<noteq> Some [] \<and> fields' c \<noteq> [])"

text \<open>
  The description of an alert (\<open>alert.description ?? ''\<close>), the contents of the
  description segments of a list, and the alerts that calls made on the wrapper before
  \<open>init\<close> put into its queue.
\<close>

definition description_text :: "AlertInput \<Rightarrow> string" where
  "description_text alert = (case AlertInput.description alert of None \<Rightarrow> [] | Some d \<Rightarrow> d)"

fun description_contents :: "Segment list \<Rightarrow> string list" where
  "description_contents [] = []"
| "description_contents (DescriptionSeg t # segs) = t # description_contents segs"
| "description_contents (seg # segs) = description_contents segs"

fun buffered_alerts :: "lazy_call list \<Rightarrow> AlertInput list" where
  "buffered_alerts [] = []"
| "buffered_alerts (CallAddAlert alert # calls) =
     (if stringify_alert_throws alert then buffered_alerts calls
      else alert # buffered_alerts calls)"
| "buffered_alerts (CallFlush # calls) = buffered_alerts calls"

section \<open>Sample inputs\<close>

text \<open>
  The inputs at which the theorems below are instantiated or the code is run: an
  identifier as \<open>randomUUID\<close> returns it, a clock, alerts, embeds, clients and responses.
\<close>

definition sample_alertId :: string where
  "sample_alertId = ''123e4567-e89b-42d3-a456-426614174000''"

definition other_alertId :: string where
  "other_alertId = ''9b2f7c1e-3d4a-4f6b-8c5d-0e1f2a3b4c5d''"

definition sample_clock :: "nat \<Rightarrow> string" where
  "sample_clock k = ''2025-01-01T00:00:00.000Z''"

definition empty_alert :: AlertInput where
  "empty_alert =
     \<lparr>AlertInput.title = None, AlertInput.description = None, AlertInput.footer = None,
      context' = None, level = None\<rparr>"

definition sample_alert :: AlertInput where
  "sample_alert =
     \<lparr>AlertInput.title = Some ''Disk almost full'',
      AlertInput.description = Some ''Volume /data is at 97%'',
      AlertInput.footer = Some ''host-17'',
      context' = Some [(''volume'', JString ''/data''), (''used'', JOther (JsonText ''97''))],
      level = Some Warn\<rparr>"

definition long_title_alert :: AlertInput where
  "long_title_alert =
     \<lparr>AlertInput.title = Some (replicate 300 CHR ''A''), AlertInput.description = None,
      AlertInput.footer = None, context' = None, level = None\<rparr>"

definition sample_embed :: "nat \<Rightarrow> EmbedWithCharCount" where
  "sample_embed n =
     \<lparr>color = None, title = None, description = None, footer = None,
      timestamp = ''2025-01-01T00:00:00.000Z'', fields' = [alertId_field sample_alertId],
      charsCount = n\<rparr>"

definition thirty_keys :: "string list" where
  "thirty_keys =
     [''k01'', ''k02'', ''k03'', ''k04'', ''k05'', ''k06'', ''k07'', ''k08'', ''k09'', ''k10'',
      ''k11'', ''k12'', ''k13'', ''k14'', ''k15'', ''k16'', ''k17'', ''k18'', ''k19'', ''k20'',
      ''k21'', ''k22'', ''k23'', ''k24'', ''k25'', ''k26'', ''k27'', ''k28'', ''k29'', ''k30'']"

definition context_of :: "string \<Rightarrow> (string \<times> js_value) list" where
  "context_of v = map (\<lambda>k. (k, JString v)) thirty_keys"

definition fields_of :: "string \<Rightarrow> Field list" where
  "fields_of v = map (\<lambda>k. \<lparr>name = k, val = v\<rparr>) thirty_keys"

definition context_alert :: "string \<Rightarrow> AlertInput" where
  "context_alert v =
     \<lparr>AlertInput.title = None, AlertInput.description = None, AlertInput.footer = None,
      context' = Some (context_of v), level = None\<rparr>"

definition light_alert :: AlertInput where
  "light_alert = context_alert ''v''"

definition heavy_alert :: AlertInput where
  "heavy_alert = context_alert (replicate 1000 CHR ''v'')"

definition default_options :: AlertsClientOptions where
  "default_options =
     \<lparr>opt_disabled = None, opt_TRUNCATED_SUFFIX = None, opt_DEFAULT_TIMEOUT_MS = None\<rparr>"

definition big_alert :: AlertInput where
  "big_alert =
     \<lparr>AlertInput.title = None, AlertInput.description = Some (replicate 3000 CHR ''x''),
      AlertInput.footer = None, context' = None, level = None\<rparr>"

definition big_embed :: "string \<Rightarrow> EmbedWithCharCount" where
  "big_embed alertId =
     \<lparr>color = None, title = None, description = Some (replicate 3000 CHR ''x''),
      footer = None, timestamp = ''2025-01-01T00:00:00.000Z'',
      fields' = [\<lparr>name = ''alertId'', val = alertId\<rparr>], charsCount = 3043\<rparr>"

definition one_alert_client :: AlertsClient where
  "one_alert_client =
     (new_AlertsClient default_options)
       \<lparr>embeds := [big_embed sample_alertId], timeoutId := Some (setTimeout (Num 10000))\<rparr>"

definition two_alerts_client :: AlertsClient where
  "two_alerts_client =
     (new_AlertsClient default_options)
       \<lparr>embeds := [big_embed sample_alertId, big_embed other_alertId],
         timeoutId := Some (setTimeout (Num 10000))\<rparr>"

definition ok_response :: Response where
  "ok_response = \<lparr>status = 200, retry_after = None\<rparr>"

definition error_response :: Response where
  "error_response = \<lparr>status = 500, retry_after = None\<rparr>"

definition rate_limited_date :: Response where
  "rate_limited_date = \<lparr>status = 429, retry_after = Some ''Wed, 21 Oct 2015 07:28:00 GMT''\<rparr>"

definition rate_limited_seconds :: Response where
  "rate_limited_seconds = \<lparr>status = 429, retry_after = Some ''2''\<rparr>"

definition rate_limited_bare :: Response where
  "rate_limited_bare = \<lparr>status = 429, retry_after = None\<rparr>"

text \<open>
  An alert whose description needs three chunks, an alert with a context value that
  \<open>stringify\<close> turns into \<open>undefined\<close>, an alert with 24 short and 6 long context
  values, and an alert with 30 such \<open>undefined\<close> values.
\<close>

definition long_description_alert :: AlertInput where
  "long_description_alert =
     \<lparr>AlertInput.title = Some ''Report'',
      AlertInput.description = Some (replicate 9001 CHR ''d''),
      AlertInput.footer = Some ''end'',
      context' = Some [(''k'', JString ''v'')], level = Some Info\<rparr>"

definition undefined_value_alert :: AlertInput where
  "undefined_value_alert =
     \<lparr>AlertInput.title = None, AlertInput.description = Some ''text'',
      AlertInput.footer = None,
      context' = Some [(''u'', JOther JsonUndefined)], level = None\<rparr>"

definition mixed_context :: "(string \<times> js_value) list" where
  "mixed_context =
     map (\<lambda>k. (k, JString ''v'')) (take 24 thirty_keys)
     @ map (\<lambda>k. (k, JString (replicate 1000 CHR ''v''))) (drop 24 thirty_keys)"

definition mixed_fields :: "Field list" where
  "mixed_fields =
     map (\<lambda>k. \<lparr>name = k, val = ''v''\<rparr>) (take 24 thirty_keys)
     @ map (\<lambda>k. \<lparr>name = k, val = replicate 1000 CHR ''v''\<rparr>) (drop 24 thirty_keys)"

definition mixed_alert :: AlertInput where
  "mixed_alert =
     \<lparr>AlertInput.title = None, AlertInput.description = None, AlertInput.footer = None,
      context' = Some mixed_context, level = None\<rparr>"

definition undefined_context_alert :: AlertInput where
  "undefined_context_alert =
     \<lparr>AlertInput.title = None, AlertInput.description = None, AlertInput.footer = None,
      context' = Some (map (\<lambda>k. (k, JOther JsonUndefined)) thirty_keys), level = None\<rparr>"

section \<open>Properties of slice, truncate and chunk\<close>

lemmas DISCORD_LIMITS =
  EMBED_TOTAL_CHARS_def EMBED_MAX_FIELDS_def TITLE_def DESCRIPTION_def FOOTER_def
  FIELD_NAME_def FIELD_VALUE_def MAX_EMBEDS_PER_PAYLOAD_def

lemma slice_prefix:
  "0 \<le> n \<Longrightarrow> slice s 0 n = take (nat n) s"
  by (cases "n = 0") (auto simp: slice_def Let_def min_def)

lemma slice_from_end:
  "n < 0 \<Longrightarrow> slice s 0 n = take (nat (int (length s) + n)) s"
  by (auto simp: slice_def Let_def max_def)

lemma slice_window:
  "i < length s \<Longrightarrow> 0 < k \<Longrightarrow> slice s (int i) (int (i + k)) = take k (drop i s)"
  by (auto simp: slice_def Let_def min_def)

lemma truncate_short: "int (length txt) \<le> mx \<Longrightarrow> truncate txt mx suffix = txt"
  by (simp add: truncate_def)

lemma truncate_long:
  "int (length suffix) \<le> mx \<Longrightarrow> mx < int (length txt) \<Longrightarrow>
   truncate txt mx suffix = take (nat (mx - int (length suffix))) txt @ suffix"
  by (simp add: truncate_def slice_prefix)

lemma truncate_length_le:
  "int (length suffix) \<le> mx \<Longrightarrow> int (length (truncate txt mx suffix)) \<le> mx"
  by (cases "int (length txt) \<le> mx") (auto simp: truncate_short truncate_long)

text \<open>
  Claim C8. When the suffix is no longer than the bound, \<open>truncate\<close> returns a text that
  is no longer than the bound unchanged; a longer text is cut to its first
  \<open>maxLen - suffix.length\<close> characters followed by the suffix, and the result has length
  exactly \<open>maxLen\<close>. The witness is the title of 300 characters with the suffix \<open>...\<close> and
  the title budget of 200: the result has 200 characters and ends in the suffix.
\<close>

theorem truncate_spec:
  assumes "int (length suffix) \<le> mx"
  shows "(int (length txt) \<le> mx \<longrightarrow> truncate txt mx suffix = txt) \<and>
         (mx < int (length txt) \<longrightarrow>
            truncate txt mx suffix = take (nat (mx - int (length suffix))) txt @ suffix \<and>
            int (length (truncate txt mx suffix)) = mx)"
  using assms by (auto simp: truncate_short truncate_long)

lemma sample_alertId_length: "length sample_alertId = 36"
  by (simp add: sample_alertId_def)

lemma long_title_embed:
  "alertToEmbeds long_title_alert ''...'' sample_alertId sample_clock =
     Some (Inr [\<lparr>color = None, title = Some (replicate 197 CHR ''A'' @ ''...''),
                  description = None, footer = None,
                  timestamp = ''2025-01-01T00:00:00.000Z'',
                  fields' = [\<lparr>name = ''alertId'', val = sample_alertId\<rparr>],
                  charsCount = 243\<rparr>])"
proof -
  have t: "truncate (replicate 300 CHR ''A'') (int TITLE) ''...'' = replicate 197 CHR ''A'' @ ''...''"
    by (simp add: truncate_long TITLE_def)
  have "segments long_title_alert ''...'' = Some (Inr [TitleSeg (replicate 197 CHR ''A'' @ ''...'')])"
    by (simp add: segments_def prepared_descriptionChunks_def chunk_def title_segments_def
        footer_segments_def prepared_title_def prepared_footer_def prepared_fields_def
        long_title_alert_def t)
  then show ?thesis
    by (simp add: alertToEmbeds_def long_title_alert_def pack_init_def ensure_def
        startNewEmbed_def commitEmbed_def truthy_def Let_def sample_clock_def
        sample_alertId_length DISCORD_LIMITS Embed.extend_def EmbedWithCharCount.defs)
qed

theorem truncate_spec_witness:
  "int (length ''...'') \<le> int TITLE \<and>
   truncate (replicate 300 CHR ''A'') (int TITLE) ''...'' = replicate 197 CHR ''A'' @ ''...'' \<and>
   length (truncate (replicate 300 CHR ''A'') (int TITLE) ''...'') = 200 \<and>
   truncate ''short title'' (int TITLE) ''...'' = ''short title'' \<and>
   map_option (map_sum id (map title))
     (alertToEmbeds long_title_alert ''...'' sample_alertId sample_clock) =
     Some (Inr [Some (replicate 197 CHR ''A'' @ ''...'')])"
  using truncate_spec [of "''...''" "int TITLE" "replicate 300 CHR ''A''"]
        truncate_spec [of "''...''" "int TITLE" "''short title''"]
  by (simp add: TITLE_def long_title_embed)

text \<open>
  Claim C10. When the suffix is longer than the bound and the text is longer than the
  bound, the end index \<open>max - suffix.length\<close> of the slice is negative and counts from
  the end of the text: \<open>truncate\<close> keeps the text without its last
  \<open>suffix.length - max\<close> characters and appends the whole suffix, so the result is longer
  than the bound. The witness is the text \<open>abcdefghij\<close> with the bound 2.
\<close>

theorem truncate_suffix_longer_than_max:
  assumes "mx < int (length suffix)" and "mx < int (length txt)"
  shows "truncate txt mx suffix =
           take (nat (int (length txt) + (mx - int (length suffix)))) txt @ suffix \<and>
         mx < int (length (truncate txt mx suffix))"
proof -
  have eq: "truncate txt mx suffix =
      take (nat (int (length txt) + (mx - int (length suffix)))) txt @ suffix"
    using assms by (simp add: truncate_def slice_from_end)
  have "length suffix \<le> length (truncate txt mx suffix)"
    unfolding eq length_append by (rule le_add2)
  with assms(1) have "mx < int (length (truncate txt mx suffix))"
    by linarith
  with eq show ?thesis by (rule conjI)
qed

theorem truncate_suffix_longer_than_max_witness:
  "(2::int) < int (length ''...'') \<and> 2 < int (length ''abcdefghij'') \<and>
   truncate ''abcdefghij'' 2 ''...'' = ''abcdefghi...'' \<and>
   2 < int (length (truncate ''abcdefghij'' 2 ''...''))"
  using truncate_suffix_longer_than_max [of 2 "''...''" "''abcdefghij''"]
  by simp

lemma chunk_loop_total:
  "0 < sz \<Longrightarrow>
   \<exists>cs. chunk_loop txt sz i acc = Some (acc @ cs) \<and> concat cs = drop i txt \<and>
        (\<forall>c\<in>set cs. c \<noteq> [] \<and> length c \<le> sz)"
proof (induction "length txt - i" arbitrary: i acc rule: less_induct)
  case less
  show ?case
  proof (cases "i < length txt")
    case False
    then show ?thesis by (subst chunk_loop.simps) simp
  next
    case True
    let ?c = "slice txt (int i) (int (i + sz))"
    have c: "?c = take sz (drop i txt)"
      using True less.prems by (rule slice_window)
    have "length txt - (i + sz) < length txt - i"
      using True less.prems by arith
    from less.hyps [OF this less.prems, of "acc @ [?c]"]
    obtain cs where cs: "chunk_loop txt sz (i + sz) (acc @ [?c]) = Some ((acc @ [?c]) @ cs)"
      "concat cs = drop (i + sz) txt" "\<forall>c\<in>set cs. c \<noteq> [] \<and> length c \<le> sz"
      by blast
    have step: "chunk_loop txt sz i acc = chunk_loop txt sz (i + sz) (acc @ [?c])"
      using True by (subst chunk_loop.simps) simp
    have "concat (?c # cs) = drop i txt"
      using cs(2) c by (simp add: add.commute [of i sz] flip: drop_drop)
    moreover have "?c \<noteq> []" using True less.prems c by simp
    moreover have "length ?c \<le> sz" using c by simp
    ultimately show ?thesis
      using cs step by (intro exI [of _ "?c # cs"]) simp
  qed
qed

lemma chunk_total:
  "0 < sz \<Longrightarrow>
   \<exists>cs. chunk txt sz = Some cs \<and> concat cs = txt \<and> (\<forall>c\<in>set cs. c \<noteq> [] \<and> length c \<le> sz)"
  using chunk_loop_total [of sz "txt" 0 "[]"] by (auto simp: chunk_def)

lemma chunk_single:
  "txt \<noteq> [] \<Longrightarrow> length txt \<le> sz \<Longrightarrow> chunk txt sz = Some [txt]"
  unfolding chunk_def
  by (subst chunk_loop.simps, simp add: slice_prefix, subst chunk_loop.simps, simp)

section \<open>The batch selected by fillBatch\<close>

lemma fillBatch_loop_prefix:
  "\<exists>k. fillBatch_loop n batch acc es = batch @ map Embed.truncate (take k es) \<and>
       k \<le> length es \<and>
       (length batch \<le> n \<longrightarrow> length batch + k \<le> n) \<and>
       (acc \<le> EMBED_TOTAL_CHARS \<longrightarrow> acc + sum_list (map charsCount (take k es)) \<le> EMBED_TOTAL_CHARS)"
proof (induction es arbitrary: batch acc)
  case Nil
  show ?case by simp
next
  case (Cons e es)
  show ?case
  proof (cases "n \<le> length batch \<or> EMBED_TOTAL_CHARS < acc + charsCount e")
    case True
    then have "fillBatch_loop n batch acc (e # es) = batch" by (auto simp: Let_def)
    then show ?thesis by (intro exI [of _ 0]) simp
  next
    case False
    then have step: "fillBatch_loop n batch acc (e # es) =
        fillBatch_loop n (batch @ [Embed.truncate e]) (acc + charsCount e) es"
      by (simp add: Let_def)
    from Cons.IH [of "batch @ [Embed.truncate e]" "acc + charsCount e"]
    obtain k where k:
      "fillBatch_loop n (batch @ [Embed.truncate e]) (acc + charsCount e) es =
         (batch @ [Embed.truncate e]) @ map Embed.truncate (take k es)"
      "k \<le> length es"
      "length (batch @ [Embed.truncate e]) \<le> n \<longrightarrow> length (batch @ [Embed.truncate e]) + k \<le> n"
      "acc + charsCount e \<le> EMBED_TOTAL_CHARS \<longrightarrow>
         acc + charsCount e + sum_list (map charsCount (take k es)) \<le> EMBED_TOTAL_CHARS"
      by blast
    show ?thesis
      using False k step by (intro exI [of _ "Suc k"]) (simp add: add.assoc)
  qed
qed

text \<open>
  Claim C7. \<open>fillBatch\<close> returns a prefix of the queue (each embed without its
  \<open>charsCount\<close>); the prefix has at most \<open>batchSize\<close> embeds and the costs of its embeds
  sum to at most \<open>EMBED_TOTAL_CHARS\<close>. It is empty for an empty queue and when the cost of
  the first embed alone exceeds the budget.
\<close>

theorem fillBatch_selects_prefix:
  "length (fillBatch source batchSize) \<le> batchSize \<and>
   length (fillBatch source batchSize) \<le> length source \<and>
   fillBatch source batchSize =
     map Embed.truncate (take (length (fillBatch source batchSize)) source) \<and>
   sum_list (map charsCount (take (length (fillBatch source batchSize)) source))
     \<le> EMBED_TOTAL_CHARS \<and>
   fillBatch [] batchSize = [] \<and>
   (EMBED_TOTAL_CHARS < charsCount e \<longrightarrow> fillBatch (e # es) batchSize = [])"
proof -
  obtain k where k:
    "fillBatch_loop batchSize [] 0 source = map Embed.truncate (take k source)"
    "k \<le> length source" "k \<le> batchSize"
    "sum_list (map charsCount (take k source)) \<le> EMBED_TOTAL_CHARS"
    using fillBatch_loop_prefix [of batchSize "[]" 0 source] by auto
  have fb: "fillBatch source batchSize = map Embed.truncate (take k source)"
    using k(1) by (cases source) (simp_all add: fillBatch_def)
  have len: "length (fillBatch source batchSize) = k"
    using k(2) by (simp add: fb)
  have "fillBatch [] batchSize = []" by (simp add: fillBatch_def)
  moreover have "EMBED_TOTAL_CHARS < charsCount e \<longrightarrow> fillBatch (e # es) batchSize = []"
    by (simp add: fillBatch_def Let_def)
  ultimately show ?thesis
    using k fb unfolding len by simp
qed

theorem fillBatch_selects_prefix_witness:
  "fillBatch [sample_embed 3000, sample_embed 2000, sample_embed 1000, sample_embed 10] 10 =
     map Embed.truncate [sample_embed 3000, sample_embed 2000] \<and>
   fillBatch [sample_embed 3000, sample_embed 2000, sample_embed 1000, sample_embed 10] 1 =
     map Embed.truncate [sample_embed 3000] \<and>
   EMBED_TOTAL_CHARS < charsCount (sample_embed 6000) \<and>
   fillBatch (sample_embed 6000 # [sample_embed 10]) 10 = []"
  using fillBatch_selects_prefix
    [of "[sample_embed 3000, sample_embed 2000, sample_embed 1000, sample_embed 10]" 10
        "sample_embed 6000" "[sample_embed 10]"]
  by (simp add: fillBatch_def sample_embed_def EMBED_TOTAL_CHARS_def Let_def)

section \<open>The segments of an alert\<close>

text \<open>The fields prepared from the context.\<close>

lemma map_entries_length:
  "map_entries suffix kvs = Inr fs \<Longrightarrow> length fs = length kvs"
  by (induction kvs arbitrary: fs) (auto split: sum.splits)

lemma prepared_field_bounds:
  assumes "int (length suffix) \<le> int FIELD_NAME" "int (length suffix) \<le> int FIELD_VALUE"
    "prepared_field suffix kv = Inr f"
  shows "length (name f) \<le> FIELD_NAME \<and> length (val f) \<le> FIELD_VALUE"
  using assms truncate_length_le [of suffix "int FIELD_NAME"]
    truncate_length_le [of suffix "int FIELD_VALUE"]
  by (auto simp: prepared_field_def split: sum.splits option.splits)

lemma map_entries_bounds:
  assumes "int (length suffix) \<le> int FIELD_NAME" "int (length suffix) \<le> int FIELD_VALUE"
  shows "map_entries suffix kvs = Inr fs \<Longrightarrow>
         \<forall>f\<in>set fs. length (name f) \<le> FIELD_NAME \<and> length (val f) \<le> FIELD_VALUE"
proof (induction kvs arbitrary: fs)
  case Nil
  then show ?case by simp
next
  case (Cons kv kvs)
  then show ?case
    using prepared_field_bounds [OF assms, of kv]
    by (auto split: sum.splits)
qed

lemma prepared_fields_bounds:
  assumes "length suffix \<le> FIELD_NAME" "length suffix \<le> FIELD_VALUE"
    "prepared_fields alert suffix = Inr fs"
  shows "\<forall>f\<in>set fs. field_cost f \<le> FIELD_NAME + FIELD_VALUE"
proof (cases "context' alert")
  case None
  with assms(3) show ?thesis by (simp add: prepared_fields_def)
next
  case (Some kvs)
  with assms(3) have "map_entries suffix kvs = Inr fs" by (simp add: prepared_fields_def)
  from map_entries_bounds [OF _ _ this] assms(1,2) show ?thesis
    by (fastforce simp: field_cost_def)
qed

lemma description_chunks:
  "\<exists>chunks. prepared_descriptionChunks alert = Some chunks \<and>
     concat chunks = description_text alert \<and>
     (\<forall>c\<in>set chunks. c \<noteq> [] \<and> length c \<le> DESCRIPTION)"
  unfolding prepared_descriptionChunks_def description_text_def
  by (rule chunk_total) (simp add: DESCRIPTION_def)

lemma title_segments_facts:
  "\<forall>s\<in>set (title_segments alert suffix). seg_truthy s \<and> rank s = 0 \<and>
     (length suffix \<le> TITLE \<longrightarrow> seg_len s \<le> TITLE)"
  using truncate_length_le [of suffix "int TITLE"]
  by (auto simp: title_segments_def prepared_title_def split: option.splits if_splits)

lemma footer_segments_facts:
  "\<forall>s\<in>set (footer_segments alert suffix). seg_truthy s \<and> rank s = 3 \<and>
     (length suffix \<le> FOOTER \<longrightarrow> seg_len s \<le> FOOTER)"
  using truncate_length_le [of suffix "int FOOTER"]
  by (auto simp: footer_segments_def prepared_footer_def split: option.splits if_splits)

lemma sorted_constant:
  "\<forall>x\<in>set xs. f x = (k::nat) \<Longrightarrow> sorted (map f xs)"
  by (induction xs) simp_all

lemma sorted_rank_segments:
  assumes "\<forall>s\<in>set ts. rank s = 0" "\<forall>s\<in>set fts. rank s = 3"
  shows "sorted (map rank (ts @ map DescriptionSeg chunks @ map FieldSeg fs @ fts))"
  using assms sorted_constant [of ts rank 0] sorted_constant [of fts rank 3]
    sorted_constant [of chunks "rank \<circ> DescriptionSeg" 1]
    sorted_constant [of fs "rank \<circ> FieldSeg" 2]
  by (auto simp: sorted_append)

lemma description_contents_append:
  "description_contents (xs @ ys) = description_contents xs @ description_contents ys"
  by (induction xs rule: description_contents.induct) simp_all

lemma description_contents_chunks [simp]:
  "description_contents (map DescriptionSeg chunks) = chunks"
  by (induction chunks) simp_all

lemma description_contents_fields [simp]:
  "description_contents (map FieldSeg fs) = []"
  by (induction fs) simp_all

lemma description_contents_other:
  "\<forall>s\<in>set segs. rank s \<noteq> 1 \<Longrightarrow> description_contents segs = []"
  by (induction segs rule: description_contents.induct) simp_all

lemma segments_eq:
  "\<exists>chunks. prepared_descriptionChunks alert = Some chunks \<and>
     concat chunks = description_text alert \<and>
     (\<forall>c\<in>set chunks. c \<noteq> [] \<and> length c \<le> DESCRIPTION) \<and>
     segments alert suffix =
       Some (case prepared_fields alert suffix of
               Inl e \<Rightarrow> Inl e
             | Inr fs \<Rightarrow> Inr (title_segments alert suffix @ map DescriptionSeg chunks
                             @ map FieldSeg fs @ footer_segments alert suffix))"
  using description_chunks [of alert] by (auto simp: segments_def)

lemma sample_segments:
  "segments sample_alert ''...'' =
     Some (Inr [TitleSeg ''Disk almost full'', DescriptionSeg ''Volume /data is at 97%'',
                FieldSeg \<lparr>name = ''volume'', val = ''/data''\<rparr>,
                FieldSeg \<lparr>name = ''used'', val = ''97''\<rparr>,
                FooterSeg ''host-17''])"
  by (simp add: segments_def prepared_descriptionChunks_def chunk_single title_segments_def
      footer_segments_def prepared_title_def prepared_footer_def prepared_fields_def
      prepared_field_def truncate_def sample_alert_def DISCORD_LIMITS)

text \<open>A description of 9001 characters is split into three chunks.\<close>

lemma chunk_three:
  "chunk (replicate 9001 CHR ''d'') 4000 =
     Some [replicate 4000 CHR ''d'', replicate 4000 CHR ''d'', replicate 1001 CHR ''d'']"
proof -
  have s1: "slice (replicate 9001 CHR ''d'') 0 4000 = replicate 4000 CHR ''d''"
    and s2: "slice (replicate 9001 CHR ''d'') 4000 8000 = replicate 4000 CHR ''d''"
    and s3: "slice (replicate 9001 CHR ''d'') 8000 12000 = replicate 1001 CHR ''d''"
    by (simp_all add: slice_def Let_def)
  have "chunk_loop (replicate 9001 CHR ''d'') 4000 12000
          [replicate 4000 CHR ''d'', replicate 4000 CHR ''d'', replicate 1001 CHR ''d''] =
        Some [replicate 4000 CHR ''d'', replicate 4000 CHR ''d'', replicate 1001 CHR ''d'']"
    by (subst chunk_loop.simps) simp
  then have "chunk_loop (replicate 9001 CHR ''d'') 4000 8000
          [replicate 4000 CHR ''d'', replicate 4000 CHR ''d''] =
        Some [replicate 4000 CHR ''d'', replicate 4000 CHR ''d'', replicate 1001 CHR ''d'']"
    by (subst chunk_loop.simps) (simp add: s3)
  then have "chunk_loop (replicate 9001 CHR ''d'') 4000 4000 [replicate 4000 CHR ''d''] =
        Some [replicate 4000 CHR ''d'', replicate 4000 CHR ''d'', replicate 1001 CHR ''d'']"
    by (subst chunk_loop.simps) (simp add: s2)
  then have "chunk_loop (replicate 9001 CHR ''d'') 4000 0 [] =
        Some [replicate 4000 CHR ''d'', replicate 4000 CHR ''d'', replicate 1001 CHR ''d'']"
    by (subst chunk_loop.simps) (simp add: s1)
  then show ?thesis
    by (simp add: chunk_def)
qed

lemma long_description_segments:
  "segments long_description_alert ''...'' =
     Some (Inr [TitleSeg ''Report'', DescriptionSeg (replicate 4000 CHR ''d''),
                DescriptionSeg (replicate 4000 CHR ''d''), DescriptionSeg (replicate 1001 CHR ''d''),
                FieldSeg \<lparr>name = ''k'', val = ''v''\<rparr>, FooterSeg ''end''])"
  by (simp add: segments_def prepared_descriptionChunks_def title_segments_def
      footer_segments_def prepared_title_def prepared_footer_def prepared_fields_def
      prepared_field_def truncate_def long_description_alert_def DISCORD_LIMITS chunk_three)

text \<open>
  Claim C9. The description chunks always exist, their concatenation is the description
  (nothing is cut off), every chunk is non-empty and within the description limit, and an
  empty or absent description gives no chunk. The Segmenter always returns: it throws
  exactly the error of the first context value that cannot be prepared, and otherwise
  it returns segments whose description segments are these chunks, in order, so that
  their concatenation is the description.
\<close>

theorem description_split_lossless:
  "\<exists>chunks. prepared_descriptionChunks alert = Some chunks \<and>
     concat chunks = description_text alert \<and>
     (description_text alert = [] \<longrightarrow> chunks = []) \<and>
     (\<forall>c\<in>set chunks. c \<noteq> [] \<and> length c \<le> DESCRIPTION) \<and>
     (case prepared_fields alert suffix of
        Inl e \<Rightarrow> segments alert suffix = Some (Inl e)
      | Inr fs \<Rightarrow>
          \<exists>segs. segments alert suffix = Some (Inr segs) \<and>
                 description_contents segs = chunks \<and>
                 concat (description_contents segs) = description_text alert)"
proof -
  obtain chunks where c: "prepared_descriptionChunks alert = Some chunks"
    "concat chunks = description_text alert"
    "\<forall>c\<in>set chunks. c \<noteq> [] \<and> length c \<le> DESCRIPTION"
    using description_chunks by blast
  have empty: "description_text alert = [] \<longrightarrow> chunks = []"
    using c(2,3) by (cases chunks) auto
  have t: "description_contents (title_segments alert suffix) = []"
    using title_segments_facts [of alert suffix] by (intro description_contents_other) simp
  have f: "description_contents (footer_segments alert suffix) = []"
    using footer_segments_facts [of alert suffix] by (intro description_contents_other) simp
  have "case prepared_fields alert suffix of
        Inl e \<Rightarrow> segments alert suffix = Some (Inl e)
      | Inr fs \<Rightarrow>
          \<exists>segs. segments alert suffix = Some (Inr segs) \<and>
                 description_contents segs = chunks \<and>
                 concat (description_contents segs) = description_text alert"
  proof (cases "prepared_fields alert suffix")
    case (Inl e)
    then show ?thesis using c(1) by (simp add: segments_def)
  next
    case (Inr fs)
    then have "segments alert suffix =
        Some (Inr (title_segments alert suffix @ map DescriptionSeg chunks
                   @ map FieldSeg fs @ footer_segments alert suffix))"
      using c(1) by (simp add: segments_def)
    moreover have "description_contents (title_segments alert suffix @ map DescriptionSeg chunks
                   @ map FieldSeg fs @ footer_segments alert suffix) = chunks"
      by (simp add: description_contents_append t f)
    ultimately show ?thesis
      using Inr c(2) by simp
  qed
  with c empty show ?thesis by blast
qed

theorem description_split_lossless_witness:
  "prepared_descriptionChunks long_description_alert =
     Some [replicate 4000 CHR ''d'', replicate 4000 CHR ''d'', replicate 1001 CHR ''d''] \<and>
   prepared_fields long_description_alert ''...'' = Inr [\<lparr>name = ''k'', val = ''v''\<rparr>] \<and>
   segments long_description_alert ''...'' =
     Some (Inr [TitleSeg ''Report'', DescriptionSeg (replicate 4000 CHR ''d''),
                DescriptionSeg (replicate 4000 CHR ''d''), DescriptionSeg (replicate 1001 CHR ''d''),
                FieldSeg \<lparr>name = ''k'', val = ''v''\<rparr>, FooterSeg ''end'']) \<and>
   concat [replicate 4000 CHR ''d'', replicate 4000 CHR ''d'', replicate 1001 CHR ''d''] =
     description_text long_description_alert \<and>
   prepared_descriptionChunks empty_alert = Some [] \<and>
   segments empty_alert ''...'' = Some (Inr []) \<and>
   prepared_descriptionChunks undefined_value_alert = Some [''text''] \<and>
   prepared_fields undefined_value_alert ''...'' = Inl TypeError \<and>
   segments undefined_value_alert ''...'' = Some (Inl TypeError)"
proof -
  have pf: "prepared_fields long_description_alert ''...'' = Inr [\<lparr>name = ''k'', val = ''v''\<rparr>]"
    "prepared_fields empty_alert ''...'' = Inr []"
    "prepared_fields undefined_value_alert ''...'' = Inl TypeError"
    by (simp_all add: prepared_fields_def prepared_field_def truncate_def
        long_description_alert_def empty_alert_def undefined_value_alert_def DISCORD_LIMITS)
  obtain chunks segs where long:
    "prepared_descriptionChunks long_description_alert = Some chunks"
    "concat chunks = description_text long_description_alert"
    "segments long_description_alert ''...'' = Some (Inr segs)"
    "description_contents segs = chunks"
    using description_split_lossless [of long_description_alert "''...''"] pf(1) by auto
  obtain none segs0 where none:
    "prepared_descriptionChunks empty_alert = Some none"
    "description_text empty_alert = [] \<longrightarrow> none = []"
    "segments empty_alert ''...'' = Some (Inr segs0)" "description_contents segs0 = none"
    using description_split_lossless [of empty_alert "''...''"] pf(2) by auto
  obtain one where one:
    "prepared_descriptionChunks undefined_value_alert = Some one"
    "concat one = description_text undefined_value_alert"
    "segments undefined_value_alert ''...'' = Some (Inl TypeError)"
    using description_split_lossless [of undefined_value_alert "''...''"] pf(3) by auto
  have "segs = [TitleSeg ''Report'', DescriptionSeg (replicate 4000 CHR ''d''),
                DescriptionSeg (replicate 4000 CHR ''d''), DescriptionSeg (replicate 1001 CHR ''d''),
                FieldSeg \<lparr>name = ''k'', val = ''v''\<rparr>, FooterSeg ''end'']"
    using long(3) by (simp add: long_description_segments)
  with long(4) have chunks: "chunks = [replicate 4000 CHR ''d'', replicate 4000 CHR ''d'',
      replicate 1001 CHR ''d'']"
    by simp
  have "none = []"
    using none(2) by (simp add: description_text_def empty_alert_def)
  moreover have "segments empty_alert ''...'' = Some (Inr [])"
    by (simp add: segments_def prepared_descriptionChunks_def chunk_def title_segments_def
        footer_segments_def prepared_title_def prepared_footer_def prepared_fields_def
        empty_alert_def)
  moreover have "one = [''text'']"
    using one(1)
    by (simp add: prepared_descriptionChunks_def undefined_value_alert_def chunk_single
        DESCRIPTION_def)
  ultimately show ?thesis
    using long chunks none(1) one(1,3) pf by (simp add: long_description_segments)
qed

section \<open>Packing keeps the character budget and the field count\<close>

lemma embed_cost_extend [simp]: "embed_cost (Embed.extend c m) = embed_cost c"
  by (simp add: embed_cost_def Embed.extend_def)

lemma embed_ok_extend [simp]: "embed_ok a (Embed.extend c m) = embed_ok a c"
  by (simp add: embed_ok_def embed_cost_def Embed.extend_def)

lemma charsCount_extend [simp]:
  "charsCount (Embed.extend c (EmbedWithCharCount.fields n)) = n"
  by (simp add: Embed.extend_def EmbedWithCharCount.defs)

lemma pack_inv_commit: "pack_inv a st \<Longrightarrow> pack_inv a (commitEmbed st)"
  by (auto simp: pack_inv_def commitEmbed_def split: option.splits)

lemma current_commit [simp]: "current (commitEmbed st) = None"
  by (simp add: commitEmbed_def split: option.splits)

lemma pack_inv_start:
  "7 + length a \<le> EMBED_TOTAL_CHARS \<Longrightarrow> pack_inv a st \<Longrightarrow> current st = None \<Longrightarrow>
   pack_inv a (startNewEmbed lvl a clock st)"
  by (simp add: pack_inv_def startNewEmbed_def embed_ok_def embed_cost_def opt_len_def
      field_cost_def alertId_field_def EMBED_MAX_FIELDS_def)

lemma start_facts [simp]:
  "charCount (startNewEmbed lvl a clock st) = 7 + length a"
  "fieldCount (startNewEmbed lvl a clock st) = 1"
  "current (startNewEmbed lvl a clock st) \<noteq> None"
  "pack_state.embeds (startNewEmbed lvl a clock st) = pack_state.embeds st"
  by (simp_all add: startNewEmbed_def)

lemma fresh_slots:
  "current (startNewEmbed lvl a clock st) = Some c \<Longrightarrow>
   title c = None \<and> description c = None \<and> footer c = None \<and> fields' c = [alertId_field a]"
  by (auto simp: startNewEmbed_def alertId_field_def)

lemma pack_inv_restart:
  "7 + length a \<le> EMBED_TOTAL_CHARS \<Longrightarrow> pack_inv a st \<Longrightarrow>
   pack_inv a (startNewEmbed lvl a clock (commitEmbed st))"
  by (simp add: pack_inv_start pack_inv_commit)

lemma pack_inv_ensure:
  "7 + length a \<le> EMBED_TOTAL_CHARS \<Longrightarrow> pack_inv a st \<Longrightarrow> pack_inv a (ensure lvl a clock st)"
  by (simp add: ensure_def pack_inv_start)

lemma ensure_current [simp]: "current (ensure lvl a clock st) \<noteq> None"
  by (cases "current st") (simp_all add: ensure_def startNewEmbed_def)

lemma not_truthy_len: "\<not> truthy s \<Longrightarrow> opt_len s = 0"
  by (auto simp: truthy_def opt_len_def split: option.splits)

lemma set_title_inv:
  assumes "pack_inv a st" "current st = Some c" "\<not> truthy (title c)"
    "charCount st + length content \<le> EMBED_TOTAL_CHARS"
  shows "pack_inv a (st\<lparr>current := Some (c\<lparr>title := Some content\<rparr>),
                        charCount := charCount st + length content\<rparr>)"
  using assms not_truthy_len [of "title c"]
  by (simp add: pack_inv_def embed_ok_def embed_cost_def) (simp add: opt_len_def)

lemma set_description_inv:
  assumes "pack_inv a st" "current st = Some c" "\<not> truthy (description c)"
    "charCount st + length content \<le> EMBED_TOTAL_CHARS"
  shows "pack_inv a (st\<lparr>current := Some (c\<lparr>description := Some content\<rparr>),
                        charCount := charCount st + length content\<rparr>)"
  using assms not_truthy_len [of "description c"]
  by (simp add: pack_inv_def embed_ok_def embed_cost_def) (simp add: opt_len_def)

lemma set_footer_inv:
  assumes "pack_inv a st" "current st = Some c" "footer c = None"
    "charCount st + length content \<le> EMBED_TOTAL_CHARS"
  shows "pack_inv a (st\<lparr>current := Some (c\<lparr>footer := Some \<lparr>footer_text = content\<rparr>\<rparr>),
                        charCount := charCount st + length content\<rparr>)"
  using assms by (simp add: pack_inv_def embed_ok_def embed_cost_def)

lemma push_field_inv:
  assumes "pack_inv a st" "current st = Some c" "fieldCount st < EMBED_MAX_FIELDS"
    "charCount st + field_cost f \<le> EMBED_TOTAL_CHARS"
  shows "pack_inv a (st\<lparr>current := Some (c\<lparr>fields' := fields' c @ [f]\<rparr>),
                        fieldCount := fieldCount st + 1,
                        charCount := charCount st + field_cost f\<rparr>)"
  using assms
  by (cases "fields' c") (simp_all add: pack_inv_def embed_ok_def embed_cost_def)

text \<open>The choice between the open embed and a fresh one.\<close>

lemma restart_or_keep:
  assumes inv: "pack_inv a st" and cur: "current st = Some c"
    and room: "7 + length a + n \<le> EMBED_TOTAL_CHARS"
    and st2_def: "st2 = (if b \<or> charCount st + n > EMBED_TOTAL_CHARS
                    then startNewEmbed lvl a clock (commitEmbed st) else st)"
  shows "pack_inv a st2 \<and> charCount st2 + n \<le> EMBED_TOTAL_CHARS \<and>
         (\<exists>c2. current st2 = Some c2 \<and>
               (if b \<or> charCount st + n > EMBED_TOTAL_CHARS
                then title c2 = None \<and> description c2 = None \<and> footer c2 = None \<and>
                     fields' c2 = [alertId_field a] \<and> fieldCount st2 = 1
                else c2 = c \<and> st2 = st))"
proof (cases "b \<or> charCount st + n > EMBED_TOTAL_CHARS")
  case True
  then have st2: "st2 = startNewEmbed lvl a clock (commitEmbed st)"
    by (simp add: st2_def)
  have "pack_inv a st2"
    unfolding st2 using room inv by (intro pack_inv_restart) simp_all
  moreover obtain c2 where c2: "current st2 = Some c2"
    unfolding st2 using start_facts(3) [of lvl a clock "commitEmbed st"] by blast
  moreover note fresh_slots [OF c2 [unfolded st2]]
  ultimately show ?thesis
    using True room by (simp add: st2)
next
  case False
  then show ?thesis
    using inv cur by (simp add: st2_def)
qed

lemma start_current: "\<exists>c. current (startNewEmbed lvl a clock st) = Some c"
  by (simp add: startNewEmbed_def)

lemma place_inv:
  assumes inv: "pack_inv a st" and room: "7 + length a + seg_len seg \<le> EMBED_TOTAL_CHARS"
  shows "\<exists>st'. place lvl a clock st seg = Inr st' \<and> pack_inv a st'"
proof -
  have room0: "7 + length a \<le> EMBED_TOTAL_CHARS" using room by simp
  let ?st1 = "ensure lvl a clock st"
  have inv1: "pack_inv a ?st1" using room0 inv by (rule pack_inv_ensure)
  obtain c where c: "current ?st1 = Some c"
    using ensure_current [of lvl a clock st] by blast
  show ?thesis
  proof (cases seg)
    case (TitleSeg content)
    define st2 where "st2 = (if truthy (title c) \<or> charCount ?st1 + length content > EMBED_TOTAL_CHARS
                    then startNewEmbed lvl a clock (commitEmbed ?st1) else ?st1)"
    from restart_or_keep [OF inv1 c _ st2_def] room TitleSeg
    obtain c2 where c2: "pack_inv a st2" "charCount st2 + length content \<le> EMBED_TOTAL_CHARS"
      "current st2 = Some c2" "\<not> truthy (title c2)"
      by (auto simp: truthy_def split: if_splits)
    have "place lvl a clock st seg =
        (case current st2 of
           None \<Rightarrow> Inl TypeError
         | Some c2 \<Rightarrow> Inr (st2\<lparr>current := Some (c2\<lparr>title := Some content\<rparr>),
                 charCount := charCount st2 + length content\<rparr>))"
      unfolding TitleSeg st2_def by (simp only: place.simps Let_def c option.case)
    then have "place lvl a clock st seg =
        Inr (st2\<lparr>current := Some (c2\<lparr>title := Some content\<rparr>),
                 charCount := charCount st2 + length content\<rparr>)"
      by (simp add: c2(3))
    then show ?thesis using set_title_inv [OF c2(1,3,4,2)] by simp
  next
    case (DescriptionSeg content)
    define st2 where "st2 = (if truthy (description c) \<or> charCount ?st1 + length content > EMBED_TOTAL_CHARS
                    then startNewEmbed lvl a clock (commitEmbed ?st1) else ?st1)"
    from restart_or_keep [OF inv1 c _ st2_def] room DescriptionSeg
    obtain c2 where c2: "pack_inv a st2" "charCount st2 + length content \<le> EMBED_TOTAL_CHARS"
      "current st2 = Some c2" "\<not> truthy (description c2)"
      by (auto simp: truthy_def split: if_splits)
    have "place lvl a clock st seg =
        (case current st2 of
           None \<Rightarrow> Inl TypeError
         | Some c2 \<Rightarrow> Inr (st2\<lparr>current := Some (c2\<lparr>description := Some content\<rparr>),
                 charCount := charCount st2 + length content\<rparr>))"
      unfolding DescriptionSeg st2_def by (simp only: place.simps Let_def c option.case)
    then have "place lvl a clock st seg =
        Inr (st2\<lparr>current := Some (c2\<lparr>description := Some content\<rparr>),
                 charCount := charCount st2 + length content\<rparr>)"
      by (simp add: c2(3))
    then show ?thesis using set_description_inv [OF c2(1,3,4,2)] by simp
  next
    case (FooterSeg content)
    define st2 where "st2 = (if footer c \<noteq> None \<or> charCount ?st1 + length content > EMBED_TOTAL_CHARS
                    then startNewEmbed lvl a clock (commitEmbed ?st1) else ?st1)"
    from restart_or_keep [OF inv1 c _ st2_def] room FooterSeg
    obtain c2 where c2: "pack_inv a st2" "charCount st2 + length content \<le> EMBED_TOTAL_CHARS"
      "current st2 = Some c2" "footer c2 = None"
      by (auto split: if_splits)
    have "place lvl a clock st seg =
        (case current st2 of
           None \<Rightarrow> Inl TypeError
         | Some c2 \<Rightarrow> Inr (st2\<lparr>current := Some (c2\<lparr>footer := Some \<lparr>footer_text = content\<rparr>\<rparr>),
                 charCount := charCount st2 + length content\<rparr>))"
      unfolding FooterSeg st2_def by (simp only: place.simps Let_def c option.case)
    then have "place lvl a clock st seg =
        Inr (st2\<lparr>current := Some (c2\<lparr>footer := Some \<lparr>footer_text = content\<rparr>\<rparr>),
                 charCount := charCount st2 + length content\<rparr>)"
      by (simp add: c2(3))
    then show ?thesis using set_footer_inv [OF c2(1,3,4,2)] by simp
  next
    case (FieldSeg f)
    define st2 where "st2 = (if current st = None \<or> fieldCount st \<ge> EMBED_MAX_FIELDS
                      \<or> charCount st + field_cost f > EMBED_TOTAL_CHARS
                 then startNewEmbed lvl a clock (commitEmbed st) else st)"
    have "\<exists>c2. pack_inv a st2 \<and> charCount st2 + field_cost f \<le> EMBED_TOTAL_CHARS \<and>
        current st2 = Some c2 \<and> fieldCount st2 < EMBED_MAX_FIELDS"
    proof (cases "current st")
      case None
      then have "st2 = startNewEmbed lvl a clock (commitEmbed st)" by (simp add: st2_def)
      then show ?thesis
        using pack_inv_restart [OF room0 inv, of lvl clock] room FieldSeg
          start_current [of lvl a clock "commitEmbed st"]
        by (auto simp: EMBED_MAX_FIELDS_def)
    next
      case (Some c0)
      have "st2 = (if EMBED_MAX_FIELDS \<le> fieldCount st \<or> charCount st + field_cost f > EMBED_TOTAL_CHARS
                    then startNewEmbed lvl a clock (commitEmbed st) else st)"
        using Some by (simp add: st2_def)
      from restart_or_keep [OF inv Some _ this] room FieldSeg
      show ?thesis
        by (auto simp: EMBED_MAX_FIELDS_def split: if_splits)
    qed
    then obtain c2 where c2: "pack_inv a st2" "charCount st2 + field_cost f \<le> EMBED_TOTAL_CHARS"
      "current st2 = Some c2" "fieldCount st2 < EMBED_MAX_FIELDS"
      by blast
    have "place lvl a clock st seg =
        (case current st2 of
           None \<Rightarrow> Inl TypeError
         | Some c2 \<Rightarrow> Inr (st2\<lparr>current := Some (c2\<lparr>fields' := fields' c2 @ [f]\<rparr>),
                 fieldCount := fieldCount st2 + 1,
                 charCount := charCount st2 + field_cost f\<rparr>))"
      unfolding FieldSeg st2_def field_cost_def by (simp only: place.simps Let_def)
    then have "place lvl a clock st seg =
        Inr (st2\<lparr>current := Some (c2\<lparr>fields' := fields' c2 @ [f]\<rparr>),
                 fieldCount := fieldCount st2 + 1,
                 charCount := charCount st2 + field_cost f\<rparr>)"
      by (simp add: c2(3))
    then show ?thesis using push_field_inv [OF c2(1,3,4,2)] by simp
  qed
qed

lemma pack_loop_inv:
  assumes "pack_inv a st" and "\<forall>seg\<in>set segs. 7 + length a + seg_len seg \<le> EMBED_TOTAL_CHARS"
  shows "\<exists>st'. pack_loop lvl a clock st segs = Inr st' \<and> pack_inv a st'"
  using assms
proof (induction segs arbitrary: st)
  case Nil
  then show ?case by simp
next
  case (Cons seg segs)
  from place_inv [OF Cons.prems(1), of seg lvl clock] Cons.prems(2)
  obtain st1 where st1: "place lvl a clock st seg = Inr st1" "pack_inv a st1"
    by auto
  from Cons.IH [OF st1(2)] Cons.prems(2) show ?case
    by (simp add: st1(1))
qed

lemma pack_inv_init: "pack_inv a pack_init"
  by (simp add: pack_inv_def pack_init_def)

section \<open>Packing places every segment once and in order\<close>

lemma embed_segments_extend [simp]: "embed_segments (Embed.extend c m) = embed_segments c"
  by (simp add: embed_segments_def Embed.extend_def)

lemma placed_commit [simp]: "placed_segments (commitEmbed st) = placed_segments st"
  by (simp add: placed_segments_def open_segments_def commitEmbed_def split: option.splits)

lemma open_start [simp]: "open_segments (startNewEmbed lvl a clock st) = []"
  by (simp add: open_segments_def startNewEmbed_def embed_segments_def)

lemma placed_start:
  "current st = None \<Longrightarrow> placed_segments (startNewEmbed lvl a clock st) = placed_segments st"
  by (simp add: placed_segments_def) (simp add: open_segments_def startNewEmbed_def)

lemma placed_restart [simp]:
  "placed_segments (startNewEmbed lvl a clock (commitEmbed st)) = placed_segments st"
  by (simp add: placed_start)

lemma slots_start [simp]: "slots_inv (startNewEmbed lvl a clock st)"
  by (simp add: slots_inv_def startNewEmbed_def)

lemma placed_ensure [simp]: "placed_segments (ensure lvl a clock st) = placed_segments st"
  by (simp add: ensure_def placed_start)

lemma slots_ensure: "slots_inv st \<Longrightarrow> slots_inv (ensure lvl a clock st)"
  by (simp add: ensure_def)

lemma open_ensure:
  "open_segments (ensure lvl a clock st) = open_segments st"
  by (cases "current st") (simp_all add: ensure_def, simp add: open_segments_def)

text \<open>The open embed after the choice between keeping it and starting a fresh one.\<close>

lemma keep_or_restart_segments:
  assumes "slots_inv st"
    and "st2 = (if b then startNewEmbed lvl a clock (commitEmbed st) else st)"
  shows "slots_inv st2 \<and> placed_segments st2 = placed_segments st \<and>
         (if b then open_segments st2 = [] else st2 = st)"
  using assms by simp

lemma rank_le_2:
  "\<forall>s\<in>set (embed_segments c). rank s \<le> 2 \<Longrightarrow> footer c = None"
  by (cases "footer c") (simp_all add: embed_segments_def)

lemma rank_le_1:
  "\<forall>s\<in>set (embed_segments c). rank s \<le> 1 \<Longrightarrow> footer c = None \<and> drop 1 (fields' c) = []"
  by (cases "footer c"; cases "drop 1 (fields' c)") (simp_all add: embed_segments_def)

lemma rank_le_0:
  "\<forall>s\<in>set (embed_segments c). rank s \<le> 0 \<Longrightarrow>
   footer c = None \<and> drop 1 (fields' c) = [] \<and> description c = None"
  by (cases "footer c"; cases "drop 1 (fields' c)"; cases "description c")
     (simp_all add: embed_segments_def)

lemma not_truthy_None: "\<not> truthy s \<Longrightarrow> s \<noteq> Some [] \<Longrightarrow> s = None"
  by (cases s) (simp_all add: truthy_def)

lemma open_segments_title:
  assumes "current st = Some c" "slots_inv st" "\<not> truthy (title c)"
    "\<forall>s\<in>set (open_segments st). rank s \<le> 0"
  shows "embed_segments (c\<lparr>title := Some content\<rparr>) = open_segments st @ [TitleSeg content]"
proof -
  have "title c = None"
    using assms(1-3) by (intro not_truthy_None) (simp_all add: slots_inv_def)
  moreover have "footer c = None \<and> drop 1 (fields' c) = [] \<and> description c = None"
    using assms(1,4) by (intro rank_le_0) (simp add: open_segments_def)
  ultimately show ?thesis
    using assms(1) by (simp add: open_segments_def embed_segments_def)
qed

lemma open_segments_description:
  assumes "current st = Some c" "slots_inv st" "\<not> truthy (description c)"
    "\<forall>s\<in>set (open_segments st). rank s \<le> 1"
  shows "embed_segments (c\<lparr>description := Some content\<rparr>) =
         open_segments st @ [DescriptionSeg content]"
proof -
  have "description c = None"
    using assms(1-3) by (intro not_truthy_None) (simp_all add: slots_inv_def)
  moreover have "footer c = None \<and> drop 1 (fields' c) = []"
    using assms(1,4) by (intro rank_le_1) (simp add: open_segments_def)
  ultimately show ?thesis
    using assms(1) by (simp add: open_segments_def embed_segments_def)
qed

lemma open_segments_footer:
  assumes "current st = Some c" "footer c = None"
  shows "embed_segments (c\<lparr>footer := Some \<lparr>footer_text = content\<rparr>\<rparr>) =
         open_segments st @ [FooterSeg content]"
  using assms by (simp add: open_segments_def embed_segments_def)

lemma open_segments_field:
  assumes "current st = Some c" "slots_inv st"
    "\<forall>s\<in>set (open_segments st). rank s \<le> 2"
  shows "embed_segments (c\<lparr>fields' := fields' c @ [f]\<rparr>) = open_segments st @ [FieldSeg f]"
proof -
  have "footer c = None"
    using assms(1,3) by (intro rank_le_2) (simp add: open_segments_def)
  moreover have "fields' c \<noteq> []"
    using assms(1,2) by (simp add: slots_inv_def)
  ultimately show ?thesis
    using assms(1) by (cases "fields' c") (simp_all add: open_segments_def embed_segments_def)
qed

lemma placed_segments_step:
  assumes "pack_state.embeds st' = pack_state.embeds st2" "current st' = Some c'"
    "embed_segments c' = open_segments st2 @ [seg]"
  shows "placed_segments st' = placed_segments st2 @ [seg] \<and>
         open_segments st' = open_segments st2 @ [seg]"
  using assms by (simp add: placed_segments_def) (simp add: open_segments_def)

lemma fresh_open:
  assumes "st2 = (if b then startNewEmbed lvl a clock (commitEmbed st1) else st1)"
    "current st1 = Some c"
  shows "\<exists>c2. current st2 = Some c2 \<and>
           (if b then title c2 = None \<and> description c2 = None \<and> footer c2 = None
            else c2 = c)"
proof (cases b)
  case True
  obtain c2 where "current (startNewEmbed lvl a clock (commitEmbed st1)) = Some c2"
    using start_current by blast
  with fresh_slots [OF this] True assms(1) show ?thesis by simp
next
  case False
  with assms show ?thesis by simp
qed

lemma place_segments:
  assumes slots: "slots_inv st" and truthy: "seg_truthy seg"
    and ranks: "\<forall>s\<in>set (open_segments st). rank s \<le> rank seg"
  shows "\<exists>st'. place lvl a clock st seg = Inr st' \<and> slots_inv st' \<and>
           placed_segments st' = placed_segments st @ [seg] \<and>
           (\<forall>s\<in>set (open_segments st'). rank s \<le> rank seg)"
proof -
  let ?st1 = "ensure lvl a clock st"
  have slots1: "slots_inv ?st1" using slots by (rule slots_ensure)
  have open1: "open_segments ?st1 = open_segments st" by (rule open_ensure)
  obtain c where c: "current ?st1 = Some c"
    using ensure_current [of lvl a clock st] by blast
  show ?thesis
  proof (cases seg)
    case (TitleSeg content)
    define b where "b = (truthy (title c) \<or> charCount ?st1 + length content > EMBED_TOTAL_CHARS)"
    define st2 where "st2 = (if b then startNewEmbed lvl a clock (commitEmbed ?st1) else ?st1)"
    note k = keep_or_restart_segments [OF slots1 st2_def]
    obtain c2 where c2: "current st2 = Some c2" "\<not> truthy (title c2)"
      using fresh_open [OF st2_def c] by (cases b) (auto simp: b_def truthy_def)
    have r2: "\<forall>s\<in>set (open_segments st2). rank s \<le> 0"
      using k ranks open1 TitleSeg by (cases b) simp_all
    define st' where "st' = st2\<lparr>current := Some (c2\<lparr>title := Some content\<rparr>),
                 charCount := charCount st2 + length content\<rparr>"
    have "place lvl a clock st seg =
        (case current st2 of
           None \<Rightarrow> Inl TypeError
         | Some c2 \<Rightarrow> Inr (st2\<lparr>current := Some (c2\<lparr>title := Some content\<rparr>),
                 charCount := charCount st2 + length content\<rparr>))"
      unfolding TitleSeg st2_def b_def by (simp only: place.simps Let_def c option.case)
    then have p: "place lvl a clock st seg = Inr st'"
      by (simp add: c2(1) st'_def)
    have "embed_segments (c2\<lparr>title := Some content\<rparr>) = open_segments st2 @ [seg]"
      unfolding TitleSeg using c2 k r2 by (intro open_segments_title) simp_all
    from placed_segments_step [of st' st2, OF _ _ this]
    have "placed_segments st' = placed_segments st2 @ [seg]"
      "open_segments st' = open_segments st2 @ [seg]"
      by (simp_all add: st'_def)
    moreover have "slots_inv st'"
      using k c2(1) truthy by (simp add: slots_inv_def st'_def TitleSeg)
    ultimately show ?thesis
      using p k r2 TitleSeg by simp
  next
    case (DescriptionSeg content)
    define b where "b = (truthy (description c) \<or> charCount ?st1 + length content > EMBED_TOTAL_CHARS)"
    define st2 where "st2 = (if b then startNewEmbed lvl a clock (commitEmbed ?st1) else ?st1)"
    note k = keep_or_restart_segments [OF slots1 st2_def]
    obtain c2 where c2: "current st2 = Some c2" "\<not> truthy (description c2)"
      using fresh_open [OF st2_def c] by (cases b) (auto simp: b_def truthy_def)
    have r2: "\<forall>s\<in>set (open_segments st2). rank s \<le> 1"
      using k ranks open1 DescriptionSeg by (cases b) simp_all
    define st' where "st' = st2\<lparr>current := Some (c2\<lparr>description := Some content\<rparr>),
                 charCount := charCount st2 + length content\<rparr>"
    have "place lvl a clock st seg =
        (case current st2 of
           None \<Rightarrow> Inl TypeError
         | Some c2 \<Rightarrow> Inr (st2\<lparr>current := Some (c2\<lparr>description := Some content\<rparr>),
                 charCount := charCount st2 + length content\<rparr>))"
      unfolding DescriptionSeg st2_def b_def by (simp only: place.simps Let_def c option.case)
    then have p: "place lvl a clock st seg = Inr st'"
      by (simp add: c2(1) st'_def)
    have "embed_segments (c2\<lparr>description := Some content\<rparr>) = open_segments st2 @ [seg]"
      unfolding DescriptionSeg using c2 k r2 by (intro open_segments_description) simp_all
    from placed_segments_step [of st' st2, OF _ _ this]
    have "placed_segments st' = placed_segments st2 @ [seg]"
      "open_segments st' = open_segments st2 @ [seg]"
      by (simp_all add: st'_def)
    moreover have "slots_inv st'"
      using k c2(1) truthy by (simp add: slots_inv_def st'_def DescriptionSeg)
    ultimately show ?thesis
      using p k r2 DescriptionSeg by simp
  next
    case (FooterSeg content)
    define b where "b = (footer c \<noteq> None \<or> charCount ?st1 + length content > EMBED_TOTAL_CHARS)"
    define st2 where "st2 = (if b then startNewEmbed lvl a clock (commitEmbed ?st1) else ?st1)"
    note k = keep_or_restart_segments [OF slots1 st2_def]
    obtain c2 where c2: "current st2 = Some c2" "footer c2 = None"
      using fresh_open [OF st2_def c] by (cases b) (auto simp: b_def)
    have r2: "\<forall>s\<in>set (open_segments st2). rank s \<le> 3"
      using k ranks open1 FooterSeg by (cases b) simp_all
    define st' where "st' = st2\<lparr>current := Some (c2\<lparr>footer := Some \<lparr>footer_text = content\<rparr>\<rparr>),
                 charCount := charCount st2 + length content\<rparr>"
    have "place lvl a clock st seg =
        (case current st2 of
           None \<Rightarrow> Inl TypeError
         | Some c2 \<Rightarrow> Inr (st2\<lparr>current := Some (c2\<lparr>footer := Some \<lparr>footer_text = content\<rparr>\<rparr>),
                 charCount := charCount st2 + length content\<rparr>))"
      unfolding FooterSeg st2_def b_def by (simp only: place.simps Let_def c option.case)
    then have p: "place lvl a clock st seg = Inr st'"
      by (simp add: c2(1) st'_def)
    have "embed_segments (c2\<lparr>footer := Some \<lparr>footer_text = content\<rparr>\<rparr>) = open_segments st2 @ [seg]"
      unfolding FooterSeg using c2 by (intro open_segments_footer) simp_all
    from placed_segments_step [of st' st2, OF _ _ this]
    have "placed_segments st' = placed_segments st2 @ [seg]"
      "open_segments st' = open_segments st2 @ [seg]"
      by (simp_all add: st'_def)
    moreover have "slots_inv st'"
      using k c2(1) by (simp add: slots_inv_def st'_def)
    ultimately show ?thesis
      using p k r2 FooterSeg by simp
  next
    case (FieldSeg f)
    define b where "b = (current st = None \<or> fieldCount st \<ge> EMBED_MAX_FIELDS
                      \<or> charCount st + (length (name f) + length (val f)) > EMBED_TOTAL_CHARS)"
    define st2 where "st2 = (if b then startNewEmbed lvl a clock (commitEmbed st) else st)"
    note k = keep_or_restart_segments [OF slots st2_def]
    obtain c2 where c2: "current st2 = Some c2"
      using start_current [of lvl a clock "commitEmbed st"]
      by (cases b) (auto simp: st2_def b_def)
    have r2: "\<forall>s\<in>set (open_segments st2). rank s \<le> 2"
      using k ranks FieldSeg by (cases b) simp_all
    define st' where "st' = st2\<lparr>current := Some (c2\<lparr>fields' := fields' c2 @ [f]\<rparr>),
                 fieldCount := fieldCount st2 + 1,
                 charCount := charCount st2 + (length (name f) + length (val f))\<rparr>"
    have "place lvl a clock st seg =
        (case current st2 of
           None \<Rightarrow> Inl TypeError
         | Some c2 \<Rightarrow> Inr (st2\<lparr>current := Some (c2\<lparr>fields' := fields' c2 @ [f]\<rparr>),
                 fieldCount := fieldCount st2 + 1,
                 charCount := charCount st2 + (length (name f) + length (val f))\<rparr>))"
      unfolding FieldSeg st2_def b_def by (simp only: place.simps Let_def)
    then have p: "place lvl a clock st seg = Inr st'"
      by (simp add: c2(1) st'_def)
    have "embed_segments (c2\<lparr>fields' := fields' c2 @ [f]\<rparr>) = open_segments st2 @ [seg]"
      unfolding FieldSeg using c2 k r2 by (intro open_segments_field) simp_all
    from placed_segments_step [of st' st2, OF _ _ this]
    have "placed_segments st' = placed_segments st2 @ [seg]"
      "open_segments st' = open_segments st2 @ [seg]"
      by (simp_all add: st'_def)
    moreover have "slots_inv st'"
      using k c2(1) by (simp add: slots_inv_def st'_def)
    ultimately show ?thesis
      using p k r2 FieldSeg by simp
  qed
qed

lemma pack_loop_segments:
  assumes "slots_inv st" and "\<forall>s\<in>set segs. seg_truthy s" and "sorted (map rank segs)"
    and "\<forall>s\<in>set (open_segments st). \<forall>s'\<in>set segs. rank s \<le> rank s'"
  shows "\<exists>st'. pack_loop lvl a clock st segs = Inr st' \<and>
           placed_segments st' = placed_segments st @ segs"
  using assms
proof (induction segs arbitrary: st)
  case Nil
  then show ?case by simp
next
  case (Cons seg segs)
  from place_segments [of st seg lvl a clock] Cons.prems
  obtain st1 where st1: "place lvl a clock st seg = Inr st1" "slots_inv st1"
    "placed_segments st1 = placed_segments st @ [seg]"
    "\<forall>s\<in>set (open_segments st1). rank s \<le> rank seg"
    by auto
  have "\<forall>s\<in>set (open_segments st1). \<forall>s'\<in>set segs. rank s \<le> rank s'"
    using st1(4) Cons.prems(3) by fastforce
  from Cons.IH [OF st1(2) _ _ this] Cons.prems(2,3)
  show ?case by (simp add: st1(1,3))
qed

lemma embeds_commit_segments:
  "concat (map embed_segments (pack_state.embeds (commitEmbed st))) = placed_segments st"
  by (simp add: placed_segments_def open_segments_def commitEmbed_def split: option.splits)

lemma slots_inv_init: "slots_inv pack_init" "open_segments pack_init = []"
  "placed_segments pack_init = []"
  by (simp_all add: slots_inv_def pack_init_def open_segments_def placed_segments_def)

section \<open>The embeds of an alert\<close>

lemma alertToEmbeds_packs:
  assumes segs: "segments alert suffix = Some (Inr segs)"
    and truthy: "\<forall>s\<in>set segs. seg_truthy s" and sorted: "sorted (map rank segs)"
    and room: "\<forall>s\<in>set segs. 7 + length alertId + seg_len s \<le> EMBED_TOTAL_CHARS"
  shows "\<exists>es. alertToEmbeds alert suffix alertId clock = Some (Inr es) \<and>
           list_all (\<lambda>e. charsCount e = embed_cost e \<and> embed_ok alertId e) es \<and>
           concat (map embed_segments es) = segs"
proof -
  let ?lvl = "level alert"
  obtain st' where st': "pack_loop ?lvl alertId clock pack_init segs = Inr st'"
    "pack_inv alertId st'"
    using pack_loop_inv [OF pack_inv_init room] by blast
  from pack_loop_segments [OF slots_inv_init(1) truthy sorted, of ?lvl alertId clock] st'(1)
  have placed: "placed_segments st' = segs"
    by (simp add: slots_inv_init)
  have "alertToEmbeds alert suffix alertId clock = Some (Inr (pack_state.embeds (commitEmbed st')))"
    by (simp add: alertToEmbeds_def segs st'(1))
  moreover have "list_all (\<lambda>e. charsCount e = embed_cost e \<and> embed_ok alertId e)
      (pack_state.embeds (commitEmbed st'))"
    using pack_inv_commit [OF st'(2)] by (simp add: pack_inv_def)
  ultimately show ?thesis
    using embeds_commit_segments [of st'] placed by simp
qed

text \<open>\<open>alertToEmbeds\<close> always returns or throws, and it throws exactly when a field does.\<close>

lemma alertToEmbeds_outcome:
  "\<exists>r. alertToEmbeds alert suffix a clock = Some r \<and>
       (case prepared_fields alert suffix of
          Inl e \<Rightarrow> r = Inl e
        | Inr fs \<Rightarrow> \<exists>es. r = Inr es)"
proof -
  obtain chunks where chunks: "\<forall>c\<in>set chunks. c \<noteq> [] \<and> length c \<le> DESCRIPTION"
    and segs: "segments alert suffix =
       Some (case prepared_fields alert suffix of
               Inl e \<Rightarrow> Inl e
             | Inr fs \<Rightarrow> Inr (title_segments alert suffix @ map DescriptionSeg chunks
                             @ map FieldSeg fs @ footer_segments alert suffix))"
    using segments_eq [of alert suffix] by blast
  show ?thesis
  proof (cases "prepared_fields alert suffix")
    case (Inl e)
    then show ?thesis using segs by (simp add: alertToEmbeds_def)
  next
    case (Inr fs)
    let ?segs = "title_segments alert suffix @ map DescriptionSeg chunks
                   @ map FieldSeg fs @ footer_segments alert suffix"
    have t: "\<forall>s\<in>set ?segs. seg_truthy s"
      using title_segments_facts [of alert suffix] footer_segments_facts [of alert suffix] chunks
      by auto
    have r: "sorted (map rank ?segs)"
      using title_segments_facts [of alert suffix] footer_segments_facts [of alert suffix]
      by (intro sorted_rank_segments) simp_all
    obtain st' where "pack_loop (level alert) a clock pack_init ?segs = Inr st'"
      using pack_loop_segments [OF slots_inv_init(1) t r, of "level alert" a clock]
      by (auto simp: slots_inv_init)
    then show ?thesis
      using segs Inr by (simp add: alertToEmbeds_def)
  qed
qed

text \<open>
  Claim C3. For a suffix no longer than the smallest budget of a part (the title's) and
  an identifier of 36 characters, as \<open>randomUUID\<close> returns, \<open>alertToEmbeds\<close> returns, and
  when it returns embeds (it throws only when a field throws), every embed has a
  \<open>charsCount\<close> equal to the characters it holds, at most \<open>EMBED_TOTAL_CHARS\<close>, has at
  most \<open>EMBED_MAX_FIELDS\<close> fields, the first of which is the identifier field, and the
  embeds hold the segments of the alert, each one once and in order: no embed was given
  a second title, description or footer.
\<close>

theorem packing_invariants:
  assumes sfx: "length suffix \<le> TITLE" and uuid: "length alertId = 36"
  shows "\<exists>r. alertToEmbeds alert suffix alertId clock = Some r \<and>
     (case r of
        Inl err \<Rightarrow> prepared_fields alert suffix = Inl err
      | Inr es \<Rightarrow>
          (\<forall>e\<in>set es. charsCount e = embed_cost e \<and> embed_cost e \<le> EMBED_TOTAL_CHARS \<and>
                      length (fields' e) \<le> EMBED_MAX_FIELDS \<and>
                      take 1 (fields' e) = [alertId_field alertId]) \<and>
          segments alert suffix = Some (Inr (concat (map embed_segments es))))"
proof -
  obtain chunks where chunks: "\<forall>c\<in>set chunks. c \<noteq> [] \<and> length c \<le> DESCRIPTION"
    and segs: "segments alert suffix =
       Some (case prepared_fields alert suffix of
               Inl e \<Rightarrow> Inl e
             | Inr fs \<Rightarrow> Inr (title_segments alert suffix @ map DescriptionSeg chunks
                             @ map FieldSeg fs @ footer_segments alert suffix))"
    using segments_eq [of alert suffix] by blast
  show ?thesis
  proof (cases "prepared_fields alert suffix")
    case (Inl err)
    then show ?thesis using segs by (simp add: alertToEmbeds_def)
  next
    case (Inr fs)
    let ?segs = "title_segments alert suffix @ map DescriptionSeg chunks
                   @ map FieldSeg fs @ footer_segments alert suffix"
    have s: "segments alert suffix = Some (Inr ?segs)" using segs Inr by simp
    have fb: "\<forall>f\<in>set fs. field_cost f \<le> FIELD_NAME + FIELD_VALUE"
      using sfx by (intro prepared_fields_bounds [OF _ _ Inr]) (simp_all add: DISCORD_LIMITS)
    have t: "\<forall>s\<in>set ?segs. seg_truthy s"
      using title_segments_facts [of alert suffix] footer_segments_facts [of alert suffix] chunks
      by auto
    have r: "sorted (map rank ?segs)"
      using title_segments_facts [of alert suffix] footer_segments_facts [of alert suffix]
      by (intro sorted_rank_segments) simp_all
    have bound: "\<forall>s\<in>set ?segs. seg_len s \<le> DESCRIPTION"
      using title_segments_facts [of alert suffix] footer_segments_facts [of alert suffix]
        chunks fb sfx
      by (auto simp: DISCORD_LIMITS)
    have room: "\<forall>s\<in>set ?segs. 7 + length alertId + seg_len s \<le> EMBED_TOTAL_CHARS"
    proof
      fix s assume "s \<in> set ?segs"
      with bound have "seg_len s \<le> DESCRIPTION" by blast
      then show "7 + length alertId + seg_len s \<le> EMBED_TOTAL_CHARS"
        using uuid by (simp add: DISCORD_LIMITS)
    qed
    from alertToEmbeds_packs [OF s t r room, of clock]
    obtain es where es: "alertToEmbeds alert suffix alertId clock = Some (Inr es)"
      "list_all (\<lambda>e. charsCount e = embed_cost e \<and> embed_ok alertId e) es"
      "concat (map embed_segments es) = ?segs"
      by blast
    show ?thesis
      using es s by (simp add: list_all_iff embed_ok_def)
  qed
qed

lemma sample_embeds:
  "alertToEmbeds sample_alert ''...'' sample_alertId sample_clock =
     Some (Inr [\<lparr>color = Some 16776960, title = Some ''Disk almost full'',
                  description = Some ''Volume /data is at 97%'',
                  footer = Some \<lparr>footer_text = ''host-17''\<rparr>,
                  timestamp = ''2025-01-01T00:00:00.000Z'',
                  fields' = [\<lparr>name = ''alertId'', val = sample_alertId\<rparr>,
                             \<lparr>name = ''volume'', val = ''/data''\<rparr>,
                             \<lparr>name = ''used'', val = ''97''\<rparr>],
                  charsCount = 105\<rparr>])"
  by (simp add: alertToEmbeds_def sample_segments)
     (simp add: sample_alert_def pack_init_def ensure_def startNewEmbed_def commitEmbed_def
        truthy_def Let_def sample_clock_def sample_alertId_length DISCORD_LIMITS
        Embed.extend_def EmbedWithCharCount.defs)

theorem packing_invariants_witness:
  "length ''...'' \<le> TITLE \<and> length sample_alertId = 36 \<and>
   (\<exists>es. alertToEmbeds sample_alert ''...'' sample_alertId sample_clock = Some (Inr es) \<and>
      es \<noteq> [] \<and>
      (\<forall>e\<in>set es. charsCount e = embed_cost e \<and> embed_cost e \<le> EMBED_TOTAL_CHARS \<and>
                  length (fields' e) \<le> EMBED_MAX_FIELDS \<and>
                  take 1 (fields' e) = [alertId_field sample_alertId]) \<and>
      segments sample_alert ''...'' = Some (Inr (concat (map embed_segments es))))"
  using packing_invariants [of "''...''" sample_alertId sample_alert sample_clock]
  by (simp add: sample_alertId_length TITLE_def sample_embeds alertId_field_def)

text \<open>
  Claim C2 says that an alert without title, description, footer and context is packed
  into exactly one embed. The alert gives no segment, \<open>startNewEmbed\<close> is never called and
  \<open>commitEmbed\<close> pushes an embed only when one is open: the result is the empty list.
\<close>

theorem empty_alert_one_container_counterexample:
  "alertToEmbeds empty_alert ''...'' sample_alertId sample_clock = Some (Inr [])"
  by (simp add: alertToEmbeds_def segments_def prepared_descriptionChunks_def chunk_def
      title_segments_def footer_segments_def prepared_title_def prepared_footer_def
      prepared_fields_def empty_alert_def pack_init_def commitEmbed_def)

text \<open>
  Claim C2, amended. An alert whose title and footer are absent or empty, whose
  description is absent or empty and whose context is absent or has no entry gives no
  segment and is packed into no embed at all.
\<close>

theorem empty_alert_yields_no_container:
  assumes "\<not> truthy (AlertInput.title alert)" and "description_text alert = []"
    and "\<not> truthy (AlertInput.footer alert)"
    and "context' alert = None \<or> context' alert = Some []"
  shows "segments alert suffix = Some (Inr []) \<and>
         alertToEmbeds alert suffix alertId clock = Some (Inr [])"
proof -
  have "prepared_descriptionChunks alert = Some []"
    using assms(2) by (simp add: prepared_descriptionChunks_def description_text_def chunk_def)
  moreover have "title_segments alert suffix = []"
    using assms(1) by (auto simp: title_segments_def prepared_title_def truthy_def split: option.splits)
  moreover have "footer_segments alert suffix = []"
    using assms(3) by (auto simp: footer_segments_def prepared_footer_def truthy_def split: option.splits)
  moreover have "prepared_fields alert suffix = Inr []"
    using assms(4) by (auto simp: prepared_fields_def)
  ultimately have "segments alert suffix = Some (Inr [])"
    by (simp add: segments_def)
  then show ?thesis
    by (simp add: alertToEmbeds_def pack_init_def commitEmbed_def)
qed

theorem empty_alert_yields_no_container_witness:
  "\<not> truthy (AlertInput.title empty_alert) \<and> description_text empty_alert = [] \<and>
   \<not> truthy (AlertInput.footer empty_alert) \<and> context' empty_alert = None \<and>
   segments empty_alert ''...'' = Some (Inr []) \<and>
   alertToEmbeds empty_alert ''...'' sample_alertId sample_clock = Some (Inr [])"
  using empty_alert_yields_no_container [of empty_alert "''...''" sample_alertId sample_clock]
  by (simp add: empty_alert_def truthy_def description_text_def)

section \<open>An alert with thirty context entries\<close>

lemma pack_loop_append:
  "pack_loop lvl a clock st (xs @ ys) =
     (case pack_loop lvl a clock st xs of
        Inl e \<Rightarrow> Inl e
      | Inr st' \<Rightarrow> pack_loop lvl a clock st' ys)"
  by (induction xs arbitrary: st) (auto split: sum.splits)

text \<open>Fields that fit into the open embed are appended to it.\<close>

lemma pack_loop_fields_fit:
  assumes "current st = Some c"
    and "fieldCount st + length fs \<le> EMBED_MAX_FIELDS"
    and "charCount st + sum_list (map field_cost fs) \<le> EMBED_TOTAL_CHARS"
  shows "pack_loop lvl a clock st (map FieldSeg fs) =
     Inr (st\<lparr>current := Some (c\<lparr>fields' := fields' c @ fs\<rparr>),
             fieldCount := fieldCount st + length fs,
             charCount := charCount st + sum_list (map field_cost fs)\<rparr>)"
  using assms
proof (induction fs arbitrary: st c)
  case Nil
  then show ?case by (cases st) simp
next
  case (Cons f fs)
  let ?st1 = "st\<lparr>current := Some (c\<lparr>fields' := fields' c @ [f]\<rparr>),
                 fieldCount := fieldCount st + 1,
                 charCount := charCount st + field_cost f\<rparr>"
  have p: "place lvl a clock st (FieldSeg f) = Inr ?st1"
    using Cons.prems by (simp add: Let_def field_cost_def)
  have step: "pack_loop lvl a clock st (map FieldSeg (f # fs)) =
      pack_loop lvl a clock ?st1 (map FieldSeg fs)"
    by (simp only: list.map pack_loop.simps p sum.case)
  have "pack_loop lvl a clock ?st1 (map FieldSeg fs) =
     Inr (?st1\<lparr>current := Some (c\<lparr>fields' := fields' c @ [f]\<rparr>\<lparr>fields' := fields' (c\<lparr>fields' := fields' c @ [f]\<rparr>) @ fs\<rparr>),
             fieldCount := fieldCount ?st1 + length fs,
             charCount := charCount ?st1 + sum_list (map field_cost fs)\<rparr>)"
    using Cons.prems by (intro Cons.IH) simp_all
  then show ?case
    unfolding step by (simp add: add.assoc)
qed

text \<open>The first field opens an embed when none is open, or when the open one is full.\<close>

lemma pack_loop_fields_fresh:
  assumes "current st = None \<or> EMBED_MAX_FIELDS \<le> fieldCount st"
    and "fs \<noteq> []" and "1 + length fs \<le> EMBED_MAX_FIELDS"
    and "7 + length a + sum_list (map field_cost fs) \<le> EMBED_TOTAL_CHARS"
  shows "\<exists>c. current (startNewEmbed lvl a clock (commitEmbed st)) = Some c \<and>
     pack_loop lvl a clock st (map FieldSeg fs) =
     Inr ((startNewEmbed lvl a clock (commitEmbed st))
            \<lparr>current := Some (c\<lparr>fields' := [alertId_field a] @ fs\<rparr>),
             fieldCount := 1 + length fs,
             charCount := 7 + length a + sum_list (map field_cost fs)\<rparr>)"
proof -
  let ?st2 = "startNewEmbed lvl a clock (commitEmbed st)"
  obtain c where c: "current ?st2 = Some c" using start_current by blast
  have fc: "fields' c = [alertId_field a]" using fresh_slots [OF c] by simp
  obtain f fs' where fs: "fs = f # fs'" using assms(2) by (cases fs) auto
  let ?st3 = "?st2\<lparr>current := Some (c\<lparr>fields' := fields' c @ [f]\<rparr>),
                  fieldCount := fieldCount ?st2 + 1,
                  charCount := charCount ?st2 + field_cost f\<rparr>"
  have p: "place lvl a clock st (FieldSeg f) = Inr ?st3"
    using assms(1) c by (auto simp: Let_def field_cost_def)
  have step: "pack_loop lvl a clock st (map FieldSeg (f # fs')) =
      pack_loop lvl a clock ?st3 (map FieldSeg fs')"
    by (simp only: list.map pack_loop.simps p sum.case)
  have "pack_loop lvl a clock ?st3 (map FieldSeg fs') =
     Inr (?st3\<lparr>current := Some (c\<lparr>fields' := fields' c @ [f]\<rparr>\<lparr>fields' := fields' (c\<lparr>fields' := fields' c @ [f]\<rparr>) @ fs'\<rparr>),
             fieldCount := fieldCount ?st3 + length fs',
             charCount := charCount ?st3 + sum_list (map field_cost fs')\<rparr>)"
    using assms(3,4) fs by (intro pack_loop_fields_fit) simp_all
  then have "pack_loop lvl a clock st (map FieldSeg fs) =
     Inr (?st2\<lparr>current := Some (c\<lparr>fields' := [alertId_field a] @ fs\<rparr>),
             fieldCount := 1 + length fs,
             charCount := 7 + length a + sum_list (map field_cost fs)\<rparr>)"
    unfolding fs step by (simp add: fc add.assoc)
  with c show ?thesis by blast
qed

lemma embeds_commit_open:
  "current st = Some c \<Longrightarrow>
   pack_state.embeds (commitEmbed st) =
     pack_state.embeds st @ [Embed.extend c (EmbedWithCharCount.fields (charCount st))]"
  by (simp add: commitEmbed_def)

lemma fields_extend [simp]: "fields' (Embed.extend c m) = fields' c"
  by (simp add: Embed.extend_def)

text \<open>
  When the identifier field with the first 24 fields, and the identifier field with the
  last 6 fields, each stay within \<open>EMBED_TOTAL_CHARS\<close>, there are exactly two embeds: the
  first holds the identifier field and the first 24 fields, the second the identifier
  field and the other 6 fields.
\<close>

lemma thirty_fields_exactly_two:
  assumes no_title: "\<not> truthy (AlertInput.title alert)"
    and no_description: "description_text alert = []"
    and no_footer: "\<not> truthy (AlertInput.footer alert)"
    and entries: "context' alert = Some entries" "length entries = 30"
    and fs: "prepared_fields alert suffix = Inr fs"
    and fit1: "7 + length alertId + sum_list (map field_cost (take 24 fs)) \<le> EMBED_TOTAL_CHARS"
    and fit2: "7 + length alertId + sum_list (map field_cost (drop 24 fs)) \<le> EMBED_TOTAL_CHARS"
  shows "length fs = 30 \<and> segments alert suffix = Some (Inr (map FieldSeg fs)) \<and>
     (\<exists>e1 e2. alertToEmbeds alert suffix alertId clock = Some (Inr [e1, e2]) \<and>
        fields' e1 = alertId_field alertId # take 24 fs \<and> length (fields' e1) = 25 \<and>
        fields' e2 = alertId_field alertId # drop 24 fs \<and> length (fields' e2) = 7)"
proof -
  let ?lvl = "level alert"
  have len: "length fs = 30"
    using fs entries map_entries_length [of suffix entries fs] by (simp add: prepared_fields_def)
  have "prepared_descriptionChunks alert = Some []"
    using no_description
    by (simp add: prepared_descriptionChunks_def description_text_def chunk_def)
  moreover have "title_segments alert suffix = []"
    using no_title
    by (auto simp: title_segments_def prepared_title_def truthy_def split: option.splits)
  moreover have "footer_segments alert suffix = []"
    using no_footer
    by (auto simp: footer_segments_def prepared_footer_def truthy_def split: option.splits)
  ultimately have segs: "segments alert suffix = Some (Inr (map FieldSeg fs))"
    using fs by (simp add: segments_def)
  have parts: "take 24 fs \<noteq> []" "drop 24 fs \<noteq> []"
    "1 + length (take 24 fs) \<le> EMBED_MAX_FIELDS" "1 + length (drop 24 fs) \<le> EMBED_MAX_FIELDS"
    using len by (auto simp: EMBED_MAX_FIELDS_def)
  have none: "current pack_init = None \<or> EMBED_MAX_FIELDS \<le> fieldCount pack_init"
    by (simp add: pack_init_def)
  let ?s0 = "startNewEmbed ?lvl alertId clock (commitEmbed pack_init)"
  obtain c1 where c1: "current ?s0 = Some c1"
    and run1: "pack_loop ?lvl alertId clock pack_init (map FieldSeg (take 24 fs)) =
       Inr (?s0\<lparr>current := Some (c1\<lparr>fields' := [alertId_field alertId] @ take 24 fs\<rparr>),
               fieldCount := 1 + length (take 24 fs),
               charCount := 7 + length alertId + sum_list (map field_cost (take 24 fs))\<rparr>)"
    using pack_loop_fields_fresh [OF none parts(1,3) fit1, of ?lvl clock] by blast
  define sA where "sA = ?s0\<lparr>current := Some (c1\<lparr>fields' := [alertId_field alertId] @ take 24 fs\<rparr>),
               fieldCount := 1 + length (take 24 fs),
               charCount := 7 + length alertId + sum_list (map field_cost (take 24 fs))\<rparr>"
  have sA: "current sA = Some (c1\<lparr>fields' := [alertId_field alertId] @ take 24 fs\<rparr>)"
    "fieldCount sA = 25" "pack_state.embeds sA = []"
    using len by (simp_all add: sA_def pack_init_def commitEmbed_def)
  let ?s1 = "startNewEmbed ?lvl alertId clock (commitEmbed sA)"
  obtain c2 where c2: "current ?s1 = Some c2"
    and run2: "pack_loop ?lvl alertId clock sA (map FieldSeg (drop 24 fs)) =
       Inr (?s1\<lparr>current := Some (c2\<lparr>fields' := [alertId_field alertId] @ drop 24 fs\<rparr>),
               fieldCount := 1 + length (drop 24 fs),
               charCount := 7 + length alertId + sum_list (map field_cost (drop 24 fs))\<rparr>)"
    using pack_loop_fields_fresh [OF _ parts(2,4) fit2, of sA ?lvl clock] sA(2)
    by (auto simp: EMBED_MAX_FIELDS_def)
  define sB where "sB = ?s1\<lparr>current := Some (c2\<lparr>fields' := [alertId_field alertId] @ drop 24 fs\<rparr>),
               fieldCount := 1 + length (drop 24 fs),
               charCount := 7 + length alertId + sum_list (map field_cost (drop 24 fs))\<rparr>"
  define e1 where "e1 = Embed.extend (c1\<lparr>fields' := [alertId_field alertId] @ take 24 fs\<rparr>)
                          (EmbedWithCharCount.fields (charCount sA))"
  define e2 where "e2 = Embed.extend (c2\<lparr>fields' := [alertId_field alertId] @ drop 24 fs\<rparr>)
                          (EmbedWithCharCount.fields (charCount sB))"
  have "pack_state.embeds (commitEmbed sA) = [e1]"
    using embeds_commit_open [OF sA(1)] sA(3) by (simp add: e1_def)
  then have "pack_state.embeds sB = [e1]"
    by (simp add: sB_def)
  moreover have "current sB = Some (c2\<lparr>fields' := [alertId_field alertId] @ drop 24 fs\<rparr>)"
    by (simp add: sB_def)
  ultimately have out: "pack_state.embeds (commitEmbed sB) = [e1, e2]"
    using embeds_commit_open [of sB] by (simp add: e2_def)
  have "pack_loop ?lvl alertId clock pack_init (map FieldSeg (take 24 fs @ drop 24 fs)) = Inr sB"
    unfolding run2 [folded sB_def, symmetric]
    by (simp only: map_append pack_loop_append run1 [folded sA_def] sum.case)
  then have "alertToEmbeds alert suffix alertId clock = Some (Inr [e1, e2])"
    by (simp add: alertToEmbeds_def segs out)
  moreover have "fields' e1 = alertId_field alertId # take 24 fs"
    "fields' e2 = alertId_field alertId # drop 24 fs"
    by (simp_all add: e1_def e2_def)
  ultimately show ?thesis
    using len segs by simp
qed

lemma context_alert_fields:
  "length v \<le> FIELD_VALUE \<Longrightarrow> prepared_fields (context_alert v) ''...'' = Inr (fields_of v)"
  by (simp add: prepared_fields_def context_alert_def context_of_def fields_of_def
      thirty_keys_def prepared_field_def truncate_def DISCORD_LIMITS)

lemma light_alert_two_embeds:
  "\<not> truthy (AlertInput.title light_alert) \<and> description_text light_alert = [] \<and>
   \<not> truthy (AlertInput.footer light_alert) \<and>
   context' light_alert = Some (context_of ''v'') \<and> length (context_of ''v'') = 30 \<and>
   prepared_fields light_alert ''...'' = Inr (fields_of ''v'') \<and>
   7 + length sample_alertId + sum_list (map field_cost (take 24 (fields_of ''v'')))
     \<le> EMBED_TOTAL_CHARS \<and>
   7 + length sample_alertId + sum_list (map field_cost (drop 24 (fields_of ''v'')))
     \<le> EMBED_TOTAL_CHARS \<and>
   segments light_alert ''...'' = Some (Inr (map FieldSeg (fields_of ''v''))) \<and>
   (\<exists>e1 e2. alertToEmbeds light_alert ''...'' sample_alertId sample_clock = Some (Inr [e1, e2]) \<and>
      fields' e1 = alertId_field sample_alertId # take 24 (fields_of ''v'') \<and>
      length (fields' e1) = 25 \<and>
      fields' e2 = alertId_field sample_alertId # drop 24 (fields_of ''v'') \<and>
      length (fields' e2) = 7)"
proof -
  have h: "\<not> truthy (AlertInput.title light_alert)" "description_text light_alert = []"
    "\<not> truthy (AlertInput.footer light_alert)"
    "context' light_alert = Some (context_of ''v'')" "length (context_of ''v'') = 30"
    by (simp_all add: light_alert_def context_alert_def truthy_def description_text_def
        context_of_def thirty_keys_def)
  have f: "prepared_fields light_alert ''...'' = Inr (fields_of ''v'')"
    unfolding light_alert_def by (rule context_alert_fields) (simp add: FIELD_VALUE_def)
  have fit: "7 + length sample_alertId + sum_list (map field_cost (take 24 (fields_of ''v'')))
       \<le> EMBED_TOTAL_CHARS"
    "7 + length sample_alertId + sum_list (map field_cost (drop 24 (fields_of ''v'')))
       \<le> EMBED_TOTAL_CHARS"
    by (simp_all add: fields_of_def thirty_keys_def field_cost_def sample_alertId_length
        EMBED_TOTAL_CHARS_def)
  from thirty_fields_exactly_two [OF h f fit, of sample_clock] h f fit
  show ?thesis by blast
qed

text \<open>
  Whatever fields follow, the open embed is committed in the end, with the fields it
  holds now at the front of its fields, and after the embeds committed so far.
\<close>

lemma pack_loop_fields_extends:
  assumes "current st = Some c"
  shows "\<exists>st' e rest. pack_loop lvl a clock st (map FieldSeg fs) = Inr st' \<and>
           pack_state.embeds (commitEmbed st') = pack_state.embeds st @ e # rest \<and>
           take (length (fields' c)) (fields' e) = fields' c"
  using assms
proof (induction fs arbitrary: st c)
  case Nil
  then show ?case
    by (simp add: embeds_commit_open)
next
  case (Cons f fs)
  define b where "b = (current st = None \<or> fieldCount st \<ge> EMBED_MAX_FIELDS
                      \<or> charCount st + (length (name f) + length (val f)) > EMBED_TOTAL_CHARS)"
  define st2 where "st2 = (if b then startNewEmbed lvl a clock (commitEmbed st) else st)"
  obtain c2 where c2: "current st2 = Some c2" "b \<longrightarrow> fields' c2 = [alertId_field a]"
    "\<not> b \<longrightarrow> c2 = c"
    using fresh_open [OF st2_def Cons.prems]
      fresh_slots [of lvl a clock "commitEmbed st"]
    by (cases b) (auto simp: st2_def)
  define st1 where "st1 = st2\<lparr>current := Some (c2\<lparr>fields' := fields' c2 @ [f]\<rparr>),
                 fieldCount := fieldCount st2 + 1,
                 charCount := charCount st2 + (length (name f) + length (val f))\<rparr>"
  have "place lvl a clock st (FieldSeg f) =
        (case current st2 of
           None \<Rightarrow> Inl TypeError
         | Some c2 \<Rightarrow> Inr (st2\<lparr>current := Some (c2\<lparr>fields' := fields' c2 @ [f]\<rparr>),
                 fieldCount := fieldCount st2 + 1,
                 charCount := charCount st2 + (length (name f) + length (val f))\<rparr>))"
    unfolding st2_def b_def by (simp only: place.simps Let_def)
  then have p: "place lvl a clock st (FieldSeg f) = Inr st1"
    by (simp add: c2(1) st1_def)
  have cur1: "current st1 = Some (c2\<lparr>fields' := fields' c2 @ [f]\<rparr>)"
    by (simp add: st1_def)
  from Cons.IH [OF cur1]
  obtain st' e rest where run: "pack_loop lvl a clock st1 (map FieldSeg fs) = Inr st'"
    "pack_state.embeds (commitEmbed st') = pack_state.embeds st1 @ e # rest"
    "take (length (fields' c2) + 1) (fields' e) = fields' c2 @ [f]"
    by auto
  have step: "pack_loop lvl a clock st (map FieldSeg (f # fs)) = Inr st'"
    by (simp only: list.map pack_loop.simps p sum.case run(1))
  show ?case
  proof (cases b)
    case True
    have "pack_state.embeds st1 =
        pack_state.embeds st @ [Embed.extend c (EmbedWithCharCount.fields (charCount st))]"
      using True Cons.prems by (simp add: st1_def st2_def embeds_commit_open)
    then have "pack_state.embeds (commitEmbed st') =
        pack_state.embeds st @ Embed.extend c (EmbedWithCharCount.fields (charCount st)) # e # rest"
      using run(2) by simp
    then show ?thesis
      using step by (intro exI [of _ st'] exI [of _ "Embed.extend c (EmbedWithCharCount.fields (charCount st))"] exI [of _ "e # rest"]) simp
  next
    case False
    then have "c2 = c" "pack_state.embeds st1 = pack_state.embeds st"
      using c2(3) by (simp_all add: st1_def st2_def)
    moreover have "take (length (fields' c2)) (fields' e) = fields' c2"
    proof -
      have "take (length (fields' c2)) (take (length (fields' c2) + 1) (fields' e)) = fields' c2"
        unfolding run(3) by simp
      then show ?thesis by (simp add: min_def)
    qed
    ultimately show ?thesis
      using step run(2) by (intro exI [of _ st'] exI [of _ e] exI [of _ rest]) simp
  qed
qed

text \<open>
  When the fields \<open>fs\<close> do not all fit into the open embed, it is committed before the
  last of them, and a second embed follows it.
\<close>

lemma pack_loop_fields_overflow:
  assumes "current st = Some c" and "fs \<noteq> []"
    and "EMBED_TOTAL_CHARS < charCount st + sum_list (map field_cost fs)"
  shows "\<exists>st' e1 e2 rest.
           pack_loop lvl a clock st (map FieldSeg (fs @ gs)) = Inr st' \<and>
           pack_state.embeds (commitEmbed st') = pack_state.embeds st @ e1 # e2 # rest \<and>
           take (length (fields' c)) (fields' e1) = fields' c \<and>
           length (fields' e1) < length (fields' c) + length fs \<and>
           take 1 (fields' e2) = [alertId_field a]"
  using assms
proof (induction fs arbitrary: st c)
  case Nil
  then show ?case by simp
next
  case (Cons f fs)
  define b where "b = (current st = None \<or> fieldCount st \<ge> EMBED_MAX_FIELDS
                      \<or> charCount st + (length (name f) + length (val f)) > EMBED_TOTAL_CHARS)"
  define st2 where "st2 = (if b then startNewEmbed lvl a clock (commitEmbed st) else st)"
  obtain c2 where c2: "current st2 = Some c2" "b \<longrightarrow> fields' c2 = [alertId_field a]"
    "\<not> b \<longrightarrow> c2 = c"
    using fresh_open [OF st2_def Cons.prems(1)]
      fresh_slots [of lvl a clock "commitEmbed st"]
    by (cases b) (auto simp: st2_def)
  define st1 where "st1 = st2\<lparr>current := Some (c2\<lparr>fields' := fields' c2 @ [f]\<rparr>),
                 fieldCount := fieldCount st2 + 1,
                 charCount := charCount st2 + (length (name f) + length (val f))\<rparr>"
  have "place lvl a clock st (FieldSeg f) =
        (case current st2 of
           None \<Rightarrow> Inl TypeError
         | Some c2 \<Rightarrow> Inr (st2\<lparr>current := Some (c2\<lparr>fields' := fields' c2 @ [f]\<rparr>),
                 fieldCount := fieldCount st2 + 1,
                 charCount := charCount st2 + (length (name f) + length (val f))\<rparr>))"
    unfolding st2_def b_def by (simp only: place.simps Let_def)
  then have p: "place lvl a clock st (FieldSeg f) = Inr st1"
    by (simp add: c2(1) st1_def)
  have cur1: "current st1 = Some (c2\<lparr>fields' := fields' c2 @ [f]\<rparr>)"
    by (simp add: st1_def)
  have step: "pack_loop lvl a clock st (map FieldSeg ((f # fs) @ gs)) =
      pack_loop lvl a clock st1 (map FieldSeg (fs @ gs))"
    by (simp only: append_Cons list.map pack_loop.simps p sum.case)
  show ?case
  proof (cases b)
    case True
    have emb1: "pack_state.embeds st1 =
        pack_state.embeds st @ [Embed.extend c (EmbedWithCharCount.fields (charCount st))]"
      using True Cons.prems(1) by (simp add: st1_def st2_def embeds_commit_open)
    from pack_loop_fields_extends [OF cur1, of lvl a clock "fs @ gs"]
    obtain st' e2 rest where run:
      "pack_loop lvl a clock st1 (map FieldSeg (fs @ gs)) = Inr st'"
      "pack_state.embeds (commitEmbed st') = pack_state.embeds st1 @ e2 # rest"
      "take (length (fields' (c2\<lparr>fields' := fields' c2 @ [f]\<rparr>))) (fields' e2) =
         fields' (c2\<lparr>fields' := fields' c2 @ [f]\<rparr>)"
      by blast
    have "take 1 (take 2 (fields' e2)) = [alertId_field a]"
      using run(3) True c2(2) by (simp add: numeral_2_eq_2)
    then have "take 1 (fields' e2) = [alertId_field a]"
      by simp
    then show ?thesis
      unfolding step using run(1,2) emb1
      by (intro exI [of _ st']
          exI [of _ "Embed.extend c (EmbedWithCharCount.fields (charCount st))"]
          exI [of _ e2] exI [of _ rest]) simp
  next
    case False
    then have same: "c2 = c" "st2 = st"
      using c2(3) by (simp_all add: st2_def)
    have fits: "charCount st + field_cost f \<le> EMBED_TOTAL_CHARS"
      using False by (simp add: b_def field_cost_def)
    have ne: "fs \<noteq> []"
      using fits Cons.prems(3) by (cases fs) auto
    have "charCount st1 = charCount st + field_cost f"
      by (simp add: st1_def same field_cost_def)
    then have over: "EMBED_TOTAL_CHARS < charCount st1 + sum_list (map field_cost fs)"
      using Cons.prems(3) by simp
    from Cons.IH [OF cur1 ne over]
    obtain st' e1 e2 rest where run:
      "pack_loop lvl a clock st1 (map FieldSeg (fs @ gs)) = Inr st'"
      "pack_state.embeds (commitEmbed st') = pack_state.embeds st1 @ e1 # e2 # rest"
      "take (length (fields' c) + 1) (fields' e1) = fields' c @ [f]"
      "length (fields' e1) < length (fields' c) + 1 + length fs"
      "take 1 (fields' e2) = [alertId_field a]"
      by (auto simp: same)
    have "take (length (fields' c)) (take (length (fields' c) + 1) (fields' e1)) = fields' c"
      unfolding run(3) by simp
    then have "take (length (fields' c)) (fields' e1) = fields' c"
      by (simp add: min_def)
    moreover have "pack_state.embeds st1 = pack_state.embeds st"
      by (simp add: st1_def same)
    ultimately show ?thesis
      unfolding step using run(1,2,4,5)
      by (intro exI [of _ st'] exI [of _ e1] exI [of _ e2] exI [of _ rest]) simp
  qed
qed

text \<open>The first embed of 30 fields, when the first 24 fields do not fit with the identifier.\<close>

lemma thirty_fields_first_short:
  assumes len: "length fs = 30"
    and over: "\<not> 7 + length alertId + sum_list (map field_cost (take 24 fs)) \<le> EMBED_TOTAL_CHARS"
  shows "\<exists>st' e1 e2 rest.
           pack_loop lvl alertId clock pack_init (map FieldSeg fs) = Inr st' \<and>
           pack_state.embeds (commitEmbed st') = e1 # e2 # rest \<and>
           take 1 (fields' e1) = [alertId_field alertId] \<and>
           take 1 (fields' e2) = [alertId_field alertId] \<and>
           length (fields' e1) < 25"
proof -
  obtain f t where ft: "fs = f # t" using len by (cases fs) auto
  have lt: "length t = 29" using len ft by simp
  let ?s0 = "startNewEmbed lvl alertId clock (commitEmbed pack_init)"
  obtain c0 where c0: "current ?s0 = Some c0" using start_current by blast
  have fc0: "fields' c0 = [alertId_field alertId]" using fresh_slots [OF c0] by simp
  define s1 where "s1 = ?s0\<lparr>current := Some (c0\<lparr>fields' := fields' c0 @ [f]\<rparr>),
                  fieldCount := fieldCount ?s0 + 1,
                  charCount := charCount ?s0 + (length (name f) + length (val f))\<rparr>"
  have "place lvl alertId clock pack_init (FieldSeg f) =
        (case current ?s0 of
           None \<Rightarrow> Inl TypeError
         | Some c2 \<Rightarrow> Inr (?s0\<lparr>current := Some (c2\<lparr>fields' := fields' c2 @ [f]\<rparr>),
                  fieldCount := fieldCount ?s0 + 1,
                  charCount := charCount ?s0 + (length (name f) + length (val f))\<rparr>))"
    by (simp only: place.simps Let_def) (simp add: pack_init_def)
  then have p: "place lvl alertId clock pack_init (FieldSeg f) = Inr s1"
    by (simp add: c0 s1_def)
  have cur1: "current s1 = Some (c0\<lparr>fields' := fields' c0 @ [f]\<rparr>)"
    and emb1: "pack_state.embeds s1 = []"
    and cc1: "charCount s1 = 7 + length alertId + field_cost f"
    by (simp_all add: s1_def pack_init_def commitEmbed_def field_cost_def)
  have ne: "take 23 t \<noteq> []" using lt by auto
  have "take 24 fs = f # take 23 t" by (simp add: ft)
  then have ov: "EMBED_TOTAL_CHARS < charCount s1 + sum_list (map field_cost (take 23 t))"
    using over by (simp add: cc1)
  from pack_loop_fields_overflow [OF cur1 ne ov, of lvl alertId clock "drop 23 t"]
  obtain st' e1 e2 rest where run:
    "pack_loop lvl alertId clock s1 (map FieldSeg t) = Inr st'"
    "pack_state.embeds (commitEmbed st') = e1 # e2 # rest"
    "take 2 (fields' e1) = [alertId_field alertId, f]"
    "length (fields' e1) < 2 + length (take 23 t)"
    "take 1 (fields' e2) = [alertId_field alertId]"
    by (auto simp: emb1 fc0 numeral_2_eq_2)
  have "take 1 (take 2 (fields' e1)) = [alertId_field alertId]"
    unfolding run(3) by simp
  then have "take 1 (fields' e1) = [alertId_field alertId]" by simp
  moreover have "length (fields' e1) < 25" using run(4) lt by simp
  moreover have "pack_loop lvl alertId clock pack_init (map FieldSeg fs) = Inr st'"
    unfolding ft by (simp only: list.map pack_loop.simps p sum.case run(1))
  ultimately show ?thesis
    using run(2,5) by blast
qed

text \<open>The first two embeds of 30 fields, when the first 24 fields fit with the identifier.\<close>

lemma thirty_fields_first_full:
  assumes len: "length fs = 30"
    and fit1: "7 + length alertId + sum_list (map field_cost (take 24 fs)) \<le> EMBED_TOTAL_CHARS"
  shows "\<exists>st' e1 e2 rest.
           pack_loop lvl alertId clock pack_init (map FieldSeg fs) = Inr st' \<and>
           pack_state.embeds (commitEmbed st') = e1 # e2 # rest \<and>
           fields' e1 = alertId_field alertId # take 24 fs \<and>
           take 2 (fields' e2) = [alertId_field alertId, fs ! 24]"
proof -
  have parts: "take 24 fs \<noteq> []" "1 + length (take 24 fs) \<le> EMBED_MAX_FIELDS"
    using len by (auto simp: EMBED_MAX_FIELDS_def)
  have none: "current pack_init = None \<or> EMBED_MAX_FIELDS \<le> fieldCount pack_init"
    by (simp add: pack_init_def)
  let ?s0 = "startNewEmbed lvl alertId clock (commitEmbed pack_init)"
  obtain c1 where c1: "current ?s0 = Some c1"
    and run1: "pack_loop lvl alertId clock pack_init (map FieldSeg (take 24 fs)) =
       Inr (?s0\<lparr>current := Some (c1\<lparr>fields' := [alertId_field alertId] @ take 24 fs\<rparr>),
               fieldCount := 1 + length (take 24 fs),
               charCount := 7 + length alertId + sum_list (map field_cost (take 24 fs))\<rparr>)"
    using pack_loop_fields_fresh [OF none parts fit1, of lvl clock] by blast
  define sA where "sA = ?s0\<lparr>current := Some (c1\<lparr>fields' := [alertId_field alertId] @ take 24 fs\<rparr>),
               fieldCount := 1 + length (take 24 fs),
               charCount := 7 + length alertId + sum_list (map field_cost (take 24 fs))\<rparr>"
  have sA: "current sA = Some (c1\<lparr>fields' := [alertId_field alertId] @ take 24 fs\<rparr>)"
    "fieldCount sA = 25" "pack_state.embeds sA = []"
    using len by (simp_all add: sA_def pack_init_def commitEmbed_def)
  define e1 where "e1 = Embed.extend (c1\<lparr>fields' := [alertId_field alertId] @ take 24 fs\<rparr>)
                          (EmbedWithCharCount.fields (charCount sA))"
  obtain rest5 where d: "drop 24 fs = fs ! 24 # rest5"
    using len by (cases "drop 24 fs") (auto simp: hd_drop_conv_nth dest: arg_cong [of _ _ hd])
  let ?f = "fs ! 24"
  let ?s1 = "startNewEmbed lvl alertId clock (commitEmbed sA)"
  obtain c2 where c2: "current ?s1 = Some c2" using start_current by blast
  have fc2: "fields' c2 = [alertId_field alertId]" using fresh_slots [OF c2] by simp
  define sB where "sB = ?s1\<lparr>current := Some (c2\<lparr>fields' := fields' c2 @ [?f]\<rparr>),
                fieldCount := fieldCount ?s1 + 1,
                charCount := charCount ?s1 + (length (name ?f) + length (val ?f))\<rparr>"
  have "place lvl alertId clock sA (FieldSeg ?f) =
      (case current ?s1 of
         None \<Rightarrow> Inl TypeError
       | Some c2 \<Rightarrow> Inr (?s1\<lparr>current := Some (c2\<lparr>fields' := fields' c2 @ [?f]\<rparr>),
                fieldCount := fieldCount ?s1 + 1,
                charCount := charCount ?s1 + (length (name ?f) + length (val ?f))\<rparr>))"
    using sA(2) by (simp only: place.simps Let_def) (simp add: EMBED_MAX_FIELDS_def)
  then have p: "place lvl alertId clock sA (FieldSeg ?f) = Inr sB"
    by (simp add: c2 sB_def)
  have curB: "current sB = Some (c2\<lparr>fields' := fields' c2 @ [?f]\<rparr>)"
    and embB: "pack_state.embeds sB = [e1]"
    using embeds_commit_open [OF sA(1)] sA(3) by (simp_all add: sB_def e1_def)
  from pack_loop_fields_extends [OF curB, of lvl alertId clock rest5]
  obtain st' e2 rest where run2: "pack_loop lvl alertId clock sB (map FieldSeg rest5) = Inr st'"
    "pack_state.embeds (commitEmbed st') = pack_state.embeds sB @ e2 # rest"
    "take (length (fields' (c2\<lparr>fields' := fields' c2 @ [?f]\<rparr>))) (fields' e2) =
       fields' (c2\<lparr>fields' := fields' c2 @ [?f]\<rparr>)"
    by blast
  have "pack_loop lvl alertId clock pack_init (map FieldSeg (take 24 fs @ drop 24 fs)) = Inr st'"
    unfolding d
    by (simp only: map_append pack_loop_append run1 [folded sA_def] sum.case list.map
        pack_loop.simps p run2(1))
  then have "pack_loop lvl alertId clock pack_init (map FieldSeg fs) = Inr st'"
    by simp
  moreover have "pack_state.embeds (commitEmbed st') = e1 # e2 # rest"
    using run2(2) embB by simp
  moreover have "fields' e1 = alertId_field alertId # take 24 fs"
    by (simp add: e1_def)
  moreover have "take 2 (fields' e2) = [alertId_field alertId, ?f]"
    using run2(3) by (simp add: fc2 numeral_2_eq_2)
  ultimately show ?thesis by blast
qed

lemma mixed_alert_fields: "prepared_fields mixed_alert ''...'' = Inr mixed_fields"
  by (simp add: prepared_fields_def mixed_alert_def mixed_context_def mixed_fields_def
      thirty_keys_def prepared_field_def truncate_def DISCORD_LIMITS)

lemma mixed_alert_embeds:
  "\<exists>es. alertToEmbeds mixed_alert ''...'' sample_alertId sample_clock = Some (Inr es) \<and>
        map (length \<circ> fields') es = [25, 6, 2]"
proof -
  have "segments mixed_alert ''...'' = Some (Inr (map FieldSeg mixed_fields))"
    using mixed_alert_fields
    by (simp add: segments_def mixed_alert_def prepared_descriptionChunks_def
        chunk_def title_segments_def footer_segments_def prepared_title_def prepared_footer_def)
  then show ?thesis
    by (simp add: alertToEmbeds_def mixed_alert_def mixed_fields_def
        thirty_keys_def pack_init_def startNewEmbed_def commitEmbed_def Let_def
        sample_alertId_length DISCORD_LIMITS Embed.extend_def)
qed

text \<open>
  Claim C6, amended. For an alert without title, description and footer whose context
  has 30 entries, none of which makes \<open>stringify\<close> throw or return \<open>undefined\<close>, the
  segments are the 30 fields, and there are at least two embeds, the first two of which
  both start with the identifier field, with the same value. The first embed is closed
  at 25 fields, the identifier field and the first 24 context fields (\<open>startNewEmbed\<close>
  counts the identifier field), and the second one starts with the identifier field and
  the 25th context field, exactly when the identifier field and the first 24 fields stay
  within \<open>EMBED_TOTAL_CHARS\<close>; otherwise the first embed is closed with fewer than 25
  fields.
\<close>

theorem thirty_fields_two_containers:
  assumes no_title: "\<not> truthy (AlertInput.title alert)"
    and no_description: "description_text alert = []"
    and no_footer: "\<not> truthy (AlertInput.footer alert)"
    and entries: "context' alert = Some entries" "length entries = 30"
    and fs: "prepared_fields alert suffix = Inr fs"
  shows "length fs = 30 \<and> segments alert suffix = Some (Inr (map FieldSeg fs)) \<and>
     (\<exists>e1 e2 rest. alertToEmbeds alert suffix alertId clock = Some (Inr (e1 # e2 # rest)) \<and>
        take 1 (fields' e1) = [alertId_field alertId] \<and>
        take 1 (fields' e2) = [alertId_field alertId] \<and>
        (if 7 + length alertId + sum_list (map field_cost (take 24 fs)) \<le> EMBED_TOTAL_CHARS
         then fields' e1 = alertId_field alertId # take 24 fs \<and> length (fields' e1) = 25 \<and>
              take 2 (fields' e2) = [alertId_field alertId, fs ! 24]
         else length (fields' e1) < 25))"
proof -
  let ?lvl = "level alert"
  have len: "length fs = 30"
    using fs entries map_entries_length [of suffix entries fs] by (simp add: prepared_fields_def)
  have "prepared_descriptionChunks alert = Some []"
    using no_description
    by (simp add: prepared_descriptionChunks_def description_text_def chunk_def)
  moreover have "title_segments alert suffix = []"
    using no_title
    by (auto simp: title_segments_def prepared_title_def truthy_def split: option.splits)
  moreover have "footer_segments alert suffix = []"
    using no_footer
    by (auto simp: footer_segments_def prepared_footer_def truthy_def split: option.splits)
  ultimately have segs: "segments alert suffix = Some (Inr (map FieldSeg fs))"
    using fs by (simp add: segments_def)
  have "\<exists>e1 e2 rest. alertToEmbeds alert suffix alertId clock = Some (Inr (e1 # e2 # rest)) \<and>
        take 1 (fields' e1) = [alertId_field alertId] \<and>
        take 1 (fields' e2) = [alertId_field alertId] \<and>
        (if 7 + length alertId + sum_list (map field_cost (take 24 fs)) \<le> EMBED_TOTAL_CHARS
         then fields' e1 = alertId_field alertId # take 24 fs \<and> length (fields' e1) = 25 \<and>
              take 2 (fields' e2) = [alertId_field alertId, fs ! 24]
         else length (fields' e1) < 25)"
  proof (cases "7 + length alertId + sum_list (map field_cost (take 24 fs)) \<le> EMBED_TOTAL_CHARS")
    case True
    from thirty_fields_first_full [OF len True, of ?lvl clock]
    obtain st' e1 e2 rest where run:
      "pack_loop ?lvl alertId clock pack_init (map FieldSeg fs) = Inr st'"
      "pack_state.embeds (commitEmbed st') = e1 # e2 # rest"
      "fields' e1 = alertId_field alertId # take 24 fs"
      "take 2 (fields' e2) = [alertId_field alertId, fs ! 24]"
      by blast
    have "alertToEmbeds alert suffix alertId clock = Some (Inr (e1 # e2 # rest))"
      by (simp add: alertToEmbeds_def segs run(1,2))
    moreover have "take 1 (take 2 (fields' e2)) = [alertId_field alertId]"
      unfolding run(4) by simp
    then have "take 1 (fields' e2) = [alertId_field alertId]" by simp
    ultimately show ?thesis
      using True run(3,4) len by (intro exI [of _ e1] exI [of _ e2] exI [of _ rest]) simp
  next
    case False
    from thirty_fields_first_short [OF len False, of ?lvl clock]
    obtain st' e1 e2 rest where run:
      "pack_loop ?lvl alertId clock pack_init (map FieldSeg fs) = Inr st'"
      "pack_state.embeds (commitEmbed st') = e1 # e2 # rest"
      "take 1 (fields' e1) = [alertId_field alertId]"
      "take 1 (fields' e2) = [alertId_field alertId]"
      "length (fields' e1) < 25"
      by blast
    have "alertToEmbeds alert suffix alertId clock = Some (Inr (e1 # e2 # rest))"
      by (simp add: alertToEmbeds_def segs run(1,2))
    then show ?thesis
      using False run(3,4,5) by (intro exI [of _ e1] exI [of _ e2] exI [of _ rest]) simp
  qed
  with len segs show ?thesis by blast
qed

theorem thirty_fields_two_containers_witness:
  "\<not> truthy (AlertInput.title mixed_alert) \<and> description_text mixed_alert = [] \<and>
   \<not> truthy (AlertInput.footer mixed_alert) \<and>
   context' mixed_alert = Some mixed_context \<and> length mixed_context = 30 \<and>
   prepared_fields mixed_alert ''...'' = Inr mixed_fields \<and>
   7 + length sample_alertId + sum_list (map field_cost (take 24 mixed_fields))
     \<le> EMBED_TOTAL_CHARS \<and>
   segments mixed_alert ''...'' = Some (Inr (map FieldSeg mixed_fields)) \<and>
   (\<exists>e1 e2 rest.
      alertToEmbeds mixed_alert ''...'' sample_alertId sample_clock = Some (Inr (e1 # e2 # rest)) \<and>
      fields' e1 = alertId_field sample_alertId # take 24 mixed_fields \<and>
      length (fields' e1) = 25 \<and>
      take 2 (fields' e2) = [alertId_field sample_alertId, mixed_fields ! 24]) \<and>
   (\<exists>es. alertToEmbeds mixed_alert ''...'' sample_alertId sample_clock = Some (Inr es) \<and>
         map (length \<circ> fields') es = [25, 6, 2]) \<and>
   context' heavy_alert = Some (context_of (replicate 1000 CHR ''v'')) \<and>
   length (context_of (replicate 1000 CHR ''v'')) = 30 \<and>
   prepared_fields heavy_alert ''...'' = Inr (fields_of (replicate 1000 CHR ''v'')) \<and>
   \<not> 7 + length sample_alertId
       + sum_list (map field_cost (take 24 (fields_of (replicate 1000 CHR ''v''))))
     \<le> EMBED_TOTAL_CHARS \<and>
   (\<exists>e1 e2 rest.
      alertToEmbeds heavy_alert ''...'' sample_alertId sample_clock = Some (Inr (e1 # e2 # rest)) \<and>
      take 1 (fields' e1) = [alertId_field sample_alertId] \<and>
      take 1 (fields' e2) = [alertId_field sample_alertId] \<and>
      length (fields' e1) < 25)"
proof -
  have m: "\<not> truthy (AlertInput.title mixed_alert)" "description_text mixed_alert = []"
    "\<not> truthy (AlertInput.footer mixed_alert)"
    "context' mixed_alert = Some mixed_context" "length mixed_context = 30"
    by (simp_all add: mixed_alert_def truthy_def description_text_def mixed_context_def
        thirty_keys_def)
  have mfit: "7 + length sample_alertId + sum_list (map field_cost (take 24 mixed_fields))
       \<le> EMBED_TOTAL_CHARS"
    by (simp add: mixed_fields_def thirty_keys_def field_cost_def sample_alertId_length
        EMBED_TOTAL_CHARS_def)
  have h: "\<not> truthy (AlertInput.title heavy_alert)" "description_text heavy_alert = []"
    "\<not> truthy (AlertInput.footer heavy_alert)"
    "context' heavy_alert = Some (context_of (replicate 1000 CHR ''v''))"
    "length (context_of (replicate 1000 CHR ''v'')) = 30"
    by (simp_all add: heavy_alert_def context_alert_def truthy_def description_text_def
        context_of_def thirty_keys_def)
  have hf: "prepared_fields heavy_alert ''...'' = Inr (fields_of (replicate 1000 CHR ''v''))"
    unfolding heavy_alert_def by (rule context_alert_fields) (simp add: FIELD_VALUE_def)
  have hover: "\<not> 7 + length sample_alertId
       + sum_list (map field_cost (take 24 (fields_of (replicate 1000 CHR ''v''))))
     \<le> EMBED_TOTAL_CHARS"
    by (simp add: fields_of_def thirty_keys_def field_cost_def sample_alertId_length
        EMBED_TOTAL_CHARS_def)
  from thirty_fields_two_containers [OF m mixed_alert_fields, of sample_alertId sample_clock]
    mfit
  have a: "segments mixed_alert ''...'' = Some (Inr (map FieldSeg mixed_fields))"
    "\<exists>e1 e2 rest.
      alertToEmbeds mixed_alert ''...'' sample_alertId sample_clock = Some (Inr (e1 # e2 # rest)) \<and>
      fields' e1 = alertId_field sample_alertId # take 24 mixed_fields \<and>
      length (fields' e1) = 25 \<and>
      take 2 (fields' e2) = [alertId_field sample_alertId, mixed_fields ! 24]"
    by auto
  from thirty_fields_two_containers [OF h hf, of sample_alertId sample_clock] hover
  have b: "\<exists>e1 e2 rest.
      alertToEmbeds heavy_alert ''...'' sample_alertId sample_clock = Some (Inr (e1 # e2 # rest)) \<and>
      take 1 (fields' e1) = [alertId_field sample_alertId] \<and>
      take 1 (fields' e2) = [alertId_field sample_alertId] \<and>
      length (fields' e1) < 25"
    by auto
  show ?thesis
    using m mixed_alert_fields mfit a mixed_alert_embeds h(4,5) hf hover b
    by (intro conjI) assumption+
qed

text \<open>
  Claim C6 says that every alert with 30 context entries gives 30 field segments and a
  first embed closed after 25 fields. With 30 values of 1000 characters the character
  budget closes an embed after 5 context fields: there are six embeds of 6 fields each.
  With 30 values that \<open>stringify\<close> turns into \<open>undefined\<close> there are no segments and no
  embeds: the first value throws.
\<close>

theorem thirty_heavy_fields_counterexample:
  "(\<exists>es. alertToEmbeds heavy_alert ''...'' sample_alertId sample_clock = Some (Inr es) \<and>
         map (length \<circ> fields') es = [6, 6, 6, 6, 6, 6]) \<and>
   segments undefined_context_alert ''...'' = Some (Inl TypeError) \<and>
   alertToEmbeds undefined_context_alert ''...'' sample_alertId sample_clock =
     Some (Inl TypeError)"
proof -
  have "prepared_fields undefined_context_alert ''...'' = Inl TypeError"
    by (simp add: prepared_fields_def undefined_context_alert_def thirty_keys_def
        prepared_field_def)
  then have "segments undefined_context_alert ''...'' = Some (Inl TypeError)"
    by (simp add: segments_def undefined_context_alert_def prepared_descriptionChunks_def
        chunk_def)
  moreover from this
  have "alertToEmbeds undefined_context_alert ''...'' sample_alertId sample_clock =
     Some (Inl TypeError)"
    by (simp add: alertToEmbeds_def)
  moreover have "\<exists>es. alertToEmbeds heavy_alert ''...'' sample_alertId sample_clock = Some (Inr es) \<and>
         map (length \<circ> fields') es = [6, 6, 6, 6, 6, 6]"
  proof -
    have "prepared_fields heavy_alert ''...'' = Inr (fields_of (replicate 1000 CHR ''v''))"
      unfolding heavy_alert_def by (rule context_alert_fields) (simp add: FIELD_VALUE_def)
    then have "segments heavy_alert ''...'' =
        Some (Inr (map FieldSeg (fields_of (replicate 1000 CHR ''v''))))"
      by (simp add: segments_def heavy_alert_def context_alert_def prepared_descriptionChunks_def
          chunk_def title_segments_def footer_segments_def prepared_title_def prepared_footer_def)
    then show ?thesis
      by (simp add: alertToEmbeds_def heavy_alert_def context_alert_def fields_of_def
          thirty_keys_def pack_init_def startNewEmbed_def commitEmbed_def Let_def
          sample_alertId_length DISCORD_LIMITS Embed.extend_def)
  qed
  ultimately show ?thesis by blast
qed

section \<open>The queue of the client\<close>

lemma big_alert_embeds:
  assumes "length alertId = 36"
  shows "alertToEmbeds big_alert ''...'' alertId sample_clock = Some (Inr [big_embed alertId])"
proof -
  have "segments big_alert ''...'' = Some (Inr [DescriptionSeg (replicate 3000 CHR ''x'')])"
    by (simp add: segments_def prepared_descriptionChunks_def chunk_single title_segments_def
        footer_segments_def prepared_title_def prepared_footer_def prepared_fields_def
        big_alert_def DISCORD_LIMITS)
  then show ?thesis
    using assms
    by (simp add: alertToEmbeds_def big_alert_def pack_init_def ensure_def startNewEmbed_def
        commitEmbed_def truthy_def Let_def sample_clock_def DISCORD_LIMITS
        Embed.extend_def EmbedWithCharCount.defs big_embed_def)
qed

text \<open>Two calls of \<open>addAlert\<close> on a new client give the queue of two embeds.\<close>

lemma two_alerts_client_reachable:
  "addAlert (new_AlertsClient default_options) big_alert sample_alertId sample_clock =
     Some (Inr one_alert_client) \<and>
   addAlert one_alert_client big_alert other_alertId sample_clock =
     Some (Inr two_alerts_client)"
proof -
  have "length sample_alertId = 36" "length other_alertId = 36"
    by (simp_all add: sample_alertId_def other_alertId_def)
  then show ?thesis
    by (simp add: addAlert_def big_alert_embeds one_alert_client_def two_alerts_client_def
        new_AlertsClient_def default_options_def Let_def)
qed

lemma two_alerts_batch:
  "sent_batch two_alerts_client = [Embed.truncate (big_embed sample_alertId)]"
  by (simp add: sent_batch_def fillBatch_def two_alerts_client_def new_AlertsClient_def
      default_options_def big_embed_def Let_def EMBED_TOTAL_CHARS_def)

text \<open>What \<open>sendAlertsBatch\<close> leaves in the queue, whenever the queue is not empty.\<close>

lemma sendAlertsBatch_queue:
  assumes "embeds c \<noteq> []"
  shows "embeds (fst (sendAlertsBatch c t fetched)) =
     (if disabled c then drop (BATCH_SIZE c) (embeds c)
      else case fetched of
             Rejected \<Rightarrow> embeds c
           | Resolved res \<Rightarrow>
               if status res = 429 then embeds c else drop (BATCH_SIZE c) (embeds c))"
  using assms
  by (auto simp: sendAlertsBatch_def after_send_def Let_def ok_def split: fetch_result.splits)

text \<open>
  Claim C1 says that a send that ends in success, in a failure other than 429, or in
  disabled mode removes exactly the batch that \<open>fillBatch\<close> selected. The code removes
  the first \<open>BATCH_SIZE\<close> embeds instead. Two alerts with a description of 3000
  characters each give a queue of two embeds that cost 3043 characters each: the batch
  holds the first one only, and after the send the queue is empty, so the second embed
  is removed without having been sent.
\<close>

theorem unsent_container_removed:
  "embeds two_alerts_client = [big_embed sample_alertId, big_embed other_alertId] \<and>
   sent_batch two_alerts_client = [Embed.truncate (big_embed sample_alertId)] \<and>
   embeds (fst (sendAlertsBatch two_alerts_client None (Resolved ok_response))) = [] \<and>
   embeds (fst (sendAlertsBatch two_alerts_client None (Resolved error_response))) = [] \<and>
   embeds (fst (sendAlertsBatch (two_alerts_client\<lparr>disabled := True\<rparr>) None Rejected)) = []"
proof -
  have q: "embeds two_alerts_client = [big_embed sample_alertId, big_embed other_alertId]"
    "BATCH_SIZE two_alerts_client = 10" "\<not> disabled two_alerts_client"
    by (simp_all add: two_alerts_client_def new_AlertsClient_def default_options_def)
  show ?thesis
    using q two_alerts_batch
    by (simp add: sendAlertsBatch_queue ok_response_def error_response_def)
qed

lemma parseInt_date: "parseInt ''Wed, 21 Oct 2015 07:28:00 GMT'' = NaN"
  by (simp add: parseInt_def js_whitespace_def digit_of_def Let_def)

lemma parseInt_two: "parseInt ''2'' = Num 2"
  by (simp add: parseInt_def js_whitespace_def digit_of_def Let_def)

text \<open>A 429 answer: the queue stays, and the timer is set from the header.\<close>

lemma rate_limited:
  assumes "embeds c \<noteq> []" "\<not> disabled c" "status res = 429"
  shows "sendAlertsBatch c t (Resolved res) =
     (c\<lparr>isSending := False,
        timeoutId := Some (setTimeout (js_times
          (case retry_after res of None \<Rightarrow> Num 30
           | Some h \<Rightarrow> if h \<noteq> [] then parseInt h else Num 30) 1000))\<rparr>,
      Inr (js_times
          (case retry_after res of None \<Rightarrow> Num 30
           | Some h \<Rightarrow> if h \<noteq> [] then parseInt h else Num 30) 1000))"
  using assms by (simp add: sendAlertsBatch_def Let_def ok_def)

text \<open>
  Claim C4 says that a 429 answer leaves the queue as it is and sets the retry after
  \<open>Retry-After\<close> seconds, or after 30 seconds when the header is absent or cannot be
  parsed. The queue is kept, a header of digits gives that many seconds and an absent
  header gives 30 seconds; but a header that is not a number, such as an HTTP date, is
  handed to \<open>parseInt\<close> and the timer is set with the delay \<open>NaN\<close>.
\<close>

theorem unparseable_retry_after_gives_NaN:
  "sendAlertsBatch two_alerts_client None (Resolved rate_limited_date) =
     (two_alerts_client\<lparr>timeoutId := Some (setTimeout NaN)\<rparr>, Inr NaN) \<and>
   sendAlertsBatch two_alerts_client None (Resolved rate_limited_seconds) =
     (two_alerts_client\<lparr>timeoutId := Some (setTimeout (Num 2000))\<rparr>, Inr (Num 2000)) \<and>
   sendAlertsBatch two_alerts_client None (Resolved rate_limited_bare) =
     (two_alerts_client\<lparr>timeoutId := Some (setTimeout (Num 30000))\<rparr>, Inr (Num 30000))"
proof -
  have q: "embeds two_alerts_client \<noteq> []" "\<not> disabled two_alerts_client"
    "\<not> isSending two_alerts_client"
    by (simp_all add: two_alerts_client_def new_AlertsClient_def default_options_def)
  show ?thesis
    using q
    by (simp add: rate_limited rate_limited_date_def rate_limited_seconds_def
        rate_limited_bare_def parseInt_date parseInt_two)
qed

section \<open>Replay by the lazy-loading wrapper\<close>

lemma addAlert_throws_core:
  assumes "\<not> isFlushing c"
  shows "(addAlert c alert a clock = Some (Inl e)) =
         (addAlert_throws (TRUNCATED_SUFFIX c) alert = Some e)"
  using assms alertToEmbeds_outcome [of alert "TRUNCATED_SUFFIX c" a clock]
  by (auto simp: addAlert_def addAlert_throws_def Let_def split: sum.splits)

lemma lazy_run_state:
  "foldl lazy_apply \<lparr>client = None, queuedAlerts = q, flushRequested = f\<rparr> calls =
     \<lparr>client = None, queuedAlerts = q @ buffered_alerts calls,
      flushRequested = (f \<or> CallFlush \<in> set calls)\<rparr>"
proof (induction calls arbitrary: q f)
  case Nil
  show ?case by simp
next
  case (Cons call calls)
  show ?case
    by (cases call) (auto simp: lazy_addAlert_def lazy_flush_def Cons.IH)
qed

lemma replay_all:
  "\<forall>alert\<in>set alerts. addAlert_throws (core_suffix core) alert = None \<Longrightarrow>
   replay core alerts = (core\<lparr>received := received core @ map AddAlert alerts\<rparr>, None)"
  by (induction alerts arbitrary: core) simp_all

text \<open>
  What \<open>init\<close> hands to the core client after any calls made before it, when no
  buffered alert makes \<open>addAlert\<close> throw.
\<close>

lemma init_after_calls:
  assumes "\<forall>alert\<in>set (buffered_alerts calls).
             addAlert_throws (TRUNCATED_SUFFIX (new_AlertsClient config)) alert = None"
  shows "init (lazy_run calls) config =
     (if buffered_alerts calls = []
      then \<lparr>client = Some \<lparr>core_suffix = TRUNCATED_SUFFIX (new_AlertsClient config),
                             received = []\<rparr>,
            queuedAlerts = [], flushRequested = (CallFlush \<in> set calls)\<rparr>
      else \<lparr>client = Some \<lparr>core_suffix = TRUNCATED_SUFFIX (new_AlertsClient config),
                             received = map AddAlert (buffered_alerts calls)
                               @ (if CallFlush \<in> set calls then [Flush] else [])\<rparr>,
            queuedAlerts = [], flushRequested = False\<rparr>)"
  using assms
  by (simp add: lazy_run_def new_LazyLoadingAlertsClient_def lazy_run_state init_def
      processQueue_def replay_all Let_def)

text \<open>
  Claim C5 says that \<open>init\<close> replays the buffered alerts in order and then calls the
  core client's \<open>flush\<close> when \<open>flush\<close> was called before, also when no alert was
  buffered. \<open>processQueue\<close> returns at once when no alert is queued: after a lone
  \<open>flush\<close>, the core client receives no call and \<open>flushRequested\<close> stays set. With
  an alert in the buffer the replay is as the claim says.
\<close>

theorem flush_before_init_not_forwarded:
  "init (lazy_run [CallFlush]) default_options =
     \<lparr>client = Some \<lparr>core_suffix = ''...'', received = []\<rparr>,
      queuedAlerts = [], flushRequested = True\<rparr> \<and>
   init (lazy_run [CallAddAlert sample_alert, CallFlush, CallAddAlert empty_alert])
        default_options =
     \<lparr>client = Some \<lparr>core_suffix = ''...'',
                      received = [AddAlert sample_alert, AddAlert empty_alert, Flush]\<rparr>,
      queuedAlerts = [], flushRequested = False\<rparr>"
proof -
  have sfx: "TRUNCATED_SUFFIX (new_AlertsClient default_options) = ''...''"
    by (simp add: new_AlertsClient_def default_options_def)
  have "addAlert_throws ''...'' sample_alert = None" "addAlert_throws ''...'' empty_alert = None"
    by (simp_all add: addAlert_throws_def prepared_fields_def prepared_field_def
        sample_alert_def empty_alert_def)
  moreover have "\<not> stringify_alert_throws sample_alert" "\<not> stringify_alert_throws empty_alert"
    by (simp_all add: stringify_alert_throws_def sample_alert_def empty_alert_def)
  ultimately show ?thesis
    by (simp add: init_after_calls sfx)
qed

end
